theory Spec2Isabelle
  imports Complex_Main "HOL-Library.AList"
begin

section \<open>JavaScript strings\<close>

text \<open>
  A JavaScript string is a sequence of UTF-16 code units; \<open>length\<close>, \<open>substring\<close>,
  \<open>trim\<close>, \<open>split\<close> and a regular expression without the \<open>u\<close> flag all work on
  code units. A code unit is modelled by its numeric value.
\<close>

type_synonym code_unit = nat
type_synonym jsstring = "code_unit list"

definition js :: "string \<Rightarrow> jsstring" where
  "js s = map of_char s"

text \<open>
  \<open>String.prototype.trim\<close> removes white space and line terminators from both ends:
  TAB, LF, VT, FF, CR, SPACE, NBSP, U+1680, U+2000 to U+200A, U+2028, U+2029, U+202F,
  U+205F, U+3000 and U+FEFF.
\<close>

definition isWhiteSpace :: "code_unit \<Rightarrow> bool" where
  "isWhiteSpace c \<longleftrightarrow>
     c = 9 \<or> c = 10 \<or> c = 11 \<or> c = 12 \<or> c = 13 \<or> c = 32 \<or> c = 160 \<or> c = 5760 \<or>
     (8192 \<le> c \<and> c \<le> 8202) \<or> c = 8232 \<or> c = 8233 \<or> c = 8239 \<or> c = 8287 \<or>
     c = 12288 \<or> c = 65279"

definition trim :: "jsstring \<Rightarrow> jsstring" where
  "trim s = rev (dropWhile isWhiteSpace (rev (dropWhile isWhiteSpace s)))"

text \<open>\<open>s.split('\n')\<close>: the empty string splits into one empty piece.\<close>

fun split_lines :: "jsstring \<Rightarrow> jsstring list" where
  "split_lines [] = [[]]"
| "split_lines (c # cs) =
     (if c = 10 then [] # split_lines cs
      else (case split_lines cs of
              [] \<Rightarrow> [[c]]
            | l # ls \<Rightarrow> (c # l) # ls))"

text \<open>A number in a template literal: its decimal digits.\<close>

function decimal :: "nat \<Rightarrow> jsstring" where
  "decimal n = (if n < 10 then [48 + n] else decimal (n div 10) @ [48 + n mod 10])"
  by pat_completeness auto
termination
  by (relation "measure (\<lambda>n. n)") auto

declare decimal.simps [simp del]

definition isDigit :: "code_unit \<Rightarrow> bool" where
  "isDigit c \<longleftrightarrow> 48 \<le> c \<and> c \<le> 57"

definition isLower :: "code_unit \<Rightarrow> bool" where
  "isLower c \<longleftrightarrow> 97 \<le> c \<and> c \<le> 122"

definition isUpper :: "code_unit \<Rightarrow> bool" where
  "isUpper c \<longleftrightarrow> 65 \<le> c \<and> c \<le> 90"

text \<open>
  The class \<open>[a-z0-9]\<close> under the flag \<open>i\<close> (and no flag \<open>u\<close>): a code unit from 128 on
  is never folded onto an ASCII letter, so exactly the ASCII letters and digits match.
\<close>

definition isAlnum :: "code_unit \<Rightarrow> bool" where
  "isAlnum c \<longleftrightarrow> isLower c \<or> isUpper c \<or> isDigit c"

text \<open>What \<open>.\<close> does not match: LF, CR, U+2028, U+2029.\<close>

definition isLineTerminator :: "code_unit \<Rightarrow> bool" where
  "isLineTerminator c \<longleftrightarrow> c = 10 \<or> c = 13 \<or> c = 8232 \<or> c = 8233"

section \<open>Image processing helpers\<close>

text \<open>
  What the browser provides: loading a data URL into an \<open>Image\<close> (its pixel width and
  height when \<open>onload\<close> fires, \<open>None\<close> when \<open>onerror\<close> fires), whether
  \<open>canvas.getContext('2d')\<close> returns a context, the width \<open>measureText\<close> reports for
  a text at a font size, and the encoder behind \<open>canvas.toDataURL\<close>. JavaScript numbers
  are idealised as reals.
\<close>

record text_style =
  font_px :: real
  textBaseline :: jsstring
  shadowColor :: jsstring
  shadowBlur :: real
  fillStyle :: jsstring

datatype draw_op =
    DrawImage jsstring real real "(real \<times> real) option"
  | FillText jsstring real real text_style

text \<open>Each drawing operation is recorded with the \<open>globalAlpha\<close> in force when it ran.\<close>

record canvas =
  canvas_width :: nat
  canvas_height :: nat
  ops :: "(real \<times> draw_op) list"

record browser =
  loadImage :: "jsstring \<Rightarrow> (nat \<times> nat) option"
  getContext :: bool
  measureText :: "real \<Rightarrow> jsstring \<Rightarrow> real"
  toDataURL :: "canvas \<Rightarrow> jsstring \<Rightarrow> real option \<Rightarrow> jsstring"

text \<open>
  What a promise rejects with: \<open>new Error(message)\<close>, the \<open>error\<close> event of an image,
  or the \<open>TypeError\<close> of a property access on \<open>null\<close>.
\<close>

datatype jserror =
    Thrown jsstring
  | ImageErrorEvent
  | TypeError

definition math_round :: "real \<Rightarrow> nat" where
  "math_round x = nat \<lfloor>x + 1 / 2\<rfloor>"

text \<open>
  \<open>compressImage(base64Str, maxWidth, quality)\<close>: the promise rejects with the error
  event when the image does not load, and with an \<open>Error\<close> when there is no context.
\<close>

definition compressImage :: "browser \<Rightarrow> jsstring \<Rightarrow> nat \<Rightarrow> real \<Rightarrow> jserror + jsstring" where
  "compressImage b base64Str maxWidth quality =
     (case loadImage b base64Str of
        None \<Rightarrow> Inl ImageErrorEvent
      | Some (img_width, img_height) \<Rightarrow>
          let (width, height) =
                (if img_width > maxWidth
                 then (maxWidth, math_round (real (img_height * maxWidth) / real img_width))
                 else (img_width, img_height))
          in if \<not> getContext b then Inl (Thrown (js ''Could not get canvas context''))
             else Inr (toDataURL b
                        \<lparr>canvas_width = width, canvas_height = height,
                         ops = [(1, DrawImage base64Str 0 0 (Some (real width, real height)))]\<rparr>
                        (js ''image/jpeg'') (Some quality)))"

section \<open>Watermark logic\<close>

text \<open>
  The watermark controls of the page, as \<open>applyWatermark\<close> reads them:
  \<open>watermark_toggle\<close> is \<open>None\<close> when the element \<open>#watermark-toggle\<close> is missing and
  otherwise its \<open>checked\<close> flag; \<open>wm_type_text\<close> says that \<open>#wm-type-text\<close> exists and
  carries the class \<open>bg-blue-500/20\<close>; the other three are the values of \<open>#wm-opacity\<close>
  (after \<open>parseFloat\<close>), \<open>#wm-position\<close> and \<open>#wm-text\<close>.
\<close>

record watermark_controls =
  watermark_toggle :: "bool option"
  wm_type_text :: bool
  wm_opacity :: real
  wm_position :: jsstring
  wm_text :: jsstring

definition padding_of :: "nat \<Rightarrow> real" where
  "padding_of img_width = real img_width * (3 / 100)"

definition fontSize_of :: "nat \<Rightarrow> real" where
  "fontSize_of img_width = real img_width * (5 / 100)"

text \<open>
  The text branch's \<open>switch (position)\<close>: the draw origin and the text baseline. A
  position that matches no case leaves \<open>x = 0, y = 0\<close>.
\<close>

definition text_origin :: "jsstring \<Rightarrow> nat \<Rightarrow> nat \<Rightarrow> real \<Rightarrow> real \<times> real \<times> jsstring" where
  "text_origin position img_width img_height textWidth =
     (let padding = padding_of img_width;
          textHeight = fontSize_of img_width
      in if position = js ''bottom-right''
           then (real img_width - textWidth - padding, real img_height - padding, js ''bottom'')
         else if position = js ''bottom-left''
           then (padding, real img_height - padding, js ''bottom'')
         else if position = js ''top-right''
           then (real img_width - textWidth - padding, padding + textHeight, js ''bottom'')
         else if position = js ''top-left''
           then (padding, padding + textHeight, js ''bottom'')
         else if position = js ''center''
           then ((real img_width - textWidth) / 2, (real img_height + textHeight) / 2, js ''middle'')
         else (0, 0, js ''bottom''))"

text \<open>The logo branch's \<open>switch (position)\<close>.\<close>

definition logo_origin :: "jsstring \<Rightarrow> nat \<Rightarrow> nat \<Rightarrow> real \<Rightarrow> real \<Rightarrow> real \<times> real" where
  "logo_origin position img_width img_height logoWidth logoHeight =
     (let padding = padding_of img_width
      in if position = js ''bottom-right''
           then (real img_width - logoWidth - padding, real img_height - logoHeight - padding)
         else if position = js ''bottom-left''
           then (padding, real img_height - logoHeight - padding)
         else if position = js ''top-right''
           then (real img_width - logoWidth - padding, padding)
         else if position = js ''top-left''
           then (padding, padding)
         else if position = js ''center''
           then ((real img_width - logoWidth) / 2, (real img_height - logoHeight) / 2)
         else (0, 0))"

text \<open>The text the text branch draws: \<open>value || 'Watermark'\<close>.\<close>

definition watermark_text :: "watermark_controls \<Rightarrow> jsstring" where
  "watermark_text d = (if wm_text d = [] then js ''Watermark'' else wm_text d)"

text \<open>The canvas of the text branch, after \<open>fillText\<close>.\<close>

definition text_canvas :: "browser \<Rightarrow> watermark_controls \<Rightarrow> jsstring \<Rightarrow> nat \<Rightarrow> nat \<Rightarrow> canvas" where
  "text_canvas b d base64Image img_width img_height =
     (let text = watermark_text d;
          fontSize = fontSize_of img_width;
          textWidth = measureText b fontSize text;
          (x, y, baseline) = text_origin (wm_position d) img_width img_height textWidth
      in \<lparr>canvas_width = img_width, canvas_height = img_height,
          ops = [(1, DrawImage base64Image 0 0 None),
                 (wm_opacity d,
                  FillText text x y
                    \<lparr>font_px = fontSize, textBaseline = baseline,
                     shadowColor = js ''rgba(0,0,0,0.5)'', shadowBlur = 4,
                     fillStyle = js ''white''\<rparr>)]\<rparr>)"

text \<open>
  The canvas of the logo branch, after the logo has loaded and been drawn. For a logo
  of width 0 JavaScript's division yields \<open>Infinity\<close> or \<open>NaN\<close> where the division
  of the reals yields 0; no statement below is about the size or place of the logo.
\<close>

definition logo_canvas ::
  "watermark_controls \<Rightarrow> jsstring \<Rightarrow> nat \<Rightarrow> nat \<Rightarrow> jsstring \<Rightarrow> nat \<Rightarrow> nat \<Rightarrow> canvas" where
  "logo_canvas d base64Image img_width img_height logo logo_width logo_height =
     (let logoTargetWidth = real img_width * (15 / 100);
          scale = logoTargetWidth / real logo_width;
          logoWidth = real logo_width * scale;
          logoHeight = real logo_height * scale;
          (x, y) = logo_origin (wm_position d) img_width img_height logoWidth logoHeight
      in \<lparr>canvas_width = img_width, canvas_height = img_height,
          ops = [(1, DrawImage base64Image 0 0 None),
                 (wm_opacity d, DrawImage logo x y (Some (logoWidth, logoHeight)))]\<rparr>)"

text \<open>
  \<open>applyWatermark(base64Image)\<close>. The promise is built from \<open>resolve\<close> alone; the result
  type still has a rejection branch, so that the callers' \<open>try/catch\<close> is modelled as
  written. \<open>watermarkLogoBase64\<close> is the module variable (\<open>None\<close> for \<open>null\<close>).
\<close>

definition applyWatermark ::
  "browser \<Rightarrow> watermark_controls \<Rightarrow> jsstring option \<Rightarrow> jsstring \<Rightarrow> jserror + jsstring" where
  "applyWatermark b d watermarkLogoBase64 base64Image =
     (case watermark_toggle d of
        None \<Rightarrow> Inr base64Image
      | Some checked \<Rightarrow>
          if \<not> checked then Inr base64Image
          else (case loadImage b base64Image of
                  None \<Rightarrow> Inr base64Image
                | Some (img_width, img_height) \<Rightarrow>
                    if \<not> getContext b then Inr base64Image
                    else if wm_type_text d
                      then Inr (toDataURL b (text_canvas b d base64Image img_width img_height)
                                  (js ''image/png'') None)
                    else (case watermarkLogoBase64 of
                            None \<Rightarrow>
                              Inr (toDataURL b
                                     \<lparr>canvas_width = img_width, canvas_height = img_height,
                                      ops = [(1, DrawImage base64Image 0 0 None)]\<rparr>
                                     (js ''image/png'') None)
                          | Some logo \<Rightarrow>
                              if logo = []
                              then Inr (toDataURL b
                                          \<lparr>canvas_width = img_width, canvas_height = img_height,
                                           ops = [(1, DrawImage base64Image 0 0 None)]\<rparr>
                                          (js ''image/png'') None)
                              else (case loadImage b logo of
                                      None \<Rightarrow> Inr base64Image
                                    | Some (logo_width, logo_height) \<Rightarrow>
                                        Inr (toDataURL b
                                               (logo_canvas d base64Image img_width img_height
                                                  logo logo_width logo_height)
                                               (js ''image/png'') None)))))"

section \<open>History management\<close>

record HistoryItem =
  hist_prompt :: jsstring
  hist_imageUrl :: jsstring

definition MAX_HISTORY_ITEMS :: nat where
  "MAX_HISTORY_ITEMS = 5"

text \<open>
  What \<open>localStorage.setItem\<close> does with a history: it stores it, or it throws a
  \<open>QuotaExceededError\<close>, or it throws something else.
\<close>

datatype storage_result = Stored | QuotaExceeded | OtherStorageError

text \<open>
  The eviction loop \<open>while (newHistory.length > 1)\<close>: drop the oldest entry and try
  again, until a write succeeds. The result is what \<open>localStorage\<close> holds afterwards.
\<close>

function evict_oldest ::
  "(HistoryItem list \<Rightarrow> storage_result) \<Rightarrow> HistoryItem list \<Rightarrow> HistoryItem list \<Rightarrow> HistoryItem list" where
  "evict_oldest setItem stored newHistory =
     (if length newHistory > 1
      then (let popped = butlast newHistory
            in if setItem popped = Stored then popped
               else evict_oldest setItem stored popped)
      else stored)"
  by pat_completeness auto
termination
  by (relation "measure (\<lambda>(setItem, stored, newHistory). length newHistory)") auto

declare evict_oldest.simps [simp del]

text \<open>
  \<open>saveToHistory(prompt, imageUrl)\<close>, on the stored history. Its whole body is inside
  \<open>try/catch\<close>, and the handler only logs: the promise never rejects.
\<close>

definition saveToHistory ::
  "browser \<Rightarrow> (HistoryItem list \<Rightarrow> storage_result) \<Rightarrow> HistoryItem list \<Rightarrow> jsstring \<Rightarrow> jsstring
     \<Rightarrow> HistoryItem list" where
  "saveToHistory b setItem stored prompt imageUrl =
     (case compressImage b imageUrl 800 (7 / 10) of
        Inl e \<Rightarrow> stored
      | Inr compressedUrl \<Rightarrow>
          let newItem = \<lparr>hist_prompt = prompt, hist_imageUrl = compressedUrl\<rparr>;
              newHistory = take MAX_HISTORY_ITEMS (newItem # stored)
          in (case setItem newHistory of
                Stored \<Rightarrow> newHistory
              | QuotaExceeded \<Rightarrow> evict_oldest setItem stored newHistory
              | OtherStorageError \<Rightarrow> stored))"

section \<open>Bulk generation logic\<close>

datatype status = Pending | Generating | Done | Error

record BulkItem =
  item_id :: jsstring
  prompt :: jsstring
  status :: status
  imageUrl :: "jsstring option"

text \<open>
  The state the bulk code works on: the module variable \<open>bulkQueue\<close>, the ids of the
  rows in \<open>#bulk-list\<close>, the history in \<open>localStorage\<close>, the message shown by
  \<open>showStatusError\<close>, and three logs kept for the statements below: the prompts passed
  to \<open>generateImage\<close> since the page was loaded, every assignment to an \<open>item.status\<close>
  of the current queue (index and new status), and what was passed to \<open>console.error\<close>
  by the loop. \<open>delays\<close> counts the 2000 ms waits. \<open>uncaught\<close> is what the promise of
  the last \<open>runBulkGeneration\<close> rejected with, \<open>None\<close> when it was fulfilled.
\<close>

record bulk_state =
  bulkQueue :: "BulkItem list"
  rows :: "jsstring list"
  history :: "HistoryItem list"
  status_error :: "jsstring option"
  generate_calls :: "jsstring list"
  transitions :: "(nat \<times> status) list"
  console_errors :: "jserror list"
  delays :: nat
  uncaught :: "jserror option"

text \<open>
  What the loop calls: \<open>generateImage\<close> (a network call; \<open>generateImage e i p\<close> is
  what the call made for job \<open>i\<close> with prompt \<open>p\<close> settles with), the watermark stage
  as job \<open>i\<close> finds it, the browser and the storage behind \<open>saveToHistory\<close>,
  \<open>Date.now()\<close> at the creation of job \<open>i\<close>, and the document: \<open>status_text e i\<close> says
  that \<open>row.querySelector('.status-text')\<close> finds an element when job \<open>i\<close> is processed.
  The rows are built by \<open>row.innerHTML\<close> from a template into which the prompt is
  pasted as it is, so markup in a prompt can remove or displace that element (after
  \<open><!--\<close> the rest of the template is a comment). The elements the module selects
  when it is loaded, such as \<open>#bulk-list\<close>, are taken to exist.
\<close>

record environment =
  generateImage :: "nat \<Rightarrow> jsstring \<Rightarrow> jserror + jsstring"
  watermark :: "nat \<Rightarrow> jsstring \<Rightarrow> jserror + jsstring"
  env_browser :: browser
  setItem :: "HistoryItem list \<Rightarrow> storage_result"
  now :: "nat \<Rightarrow> nat"
  status_text :: "nat \<Rightarrow> bool"

definition set_status :: "nat \<Rightarrow> status \<Rightarrow> bulk_state \<Rightarrow> bulk_state" where
  "set_status i s st =
     st\<lparr>bulkQueue := (bulkQueue st)[i := (bulkQueue st ! i)\<lparr>status := s\<rparr>],
        transitions := transitions st @ [(i, s)]\<rparr>"

definition set_imageUrl :: "nat \<Rightarrow> jsstring \<Rightarrow> bulk_state \<Rightarrow> bulk_state" where
  "set_imageUrl i url st =
     st\<lparr>bulkQueue := (bulkQueue st)[i := (bulkQueue st ! i)\<lparr>imageUrl := Some url\<rparr>]\<rparr>"

definition final_prompt :: "jsstring \<Rightarrow> jsstring \<Rightarrow> jsstring" where
  "final_prompt negativePrompt p =
     (if negativePrompt \<noteq> []
      then p @ js '' . Ensure the image does not contain: '' @ negativePrompt @ js ''.''
      else p)"

text \<open>The \<open>catch\<close> block of the loop body.\<close>

definition catch_error :: "nat \<Rightarrow> jserror \<Rightarrow> bulk_state \<Rightarrow> bulk_state" where
  "catch_error i err st =
     (set_status i Error st)\<lparr>console_errors := console_errors st @ [err]\<rparr>"

text \<open>The \<open>try\<close> block of the loop body, from the call of \<open>generateImage\<close> on.\<close>

definition try_generate :: "environment \<Rightarrow> jsstring \<Rightarrow> nat \<Rightarrow> BulkItem \<Rightarrow> bulk_state \<Rightarrow> bulk_state" where
  "try_generate e negativePrompt i item st =
     (let finalPrompt = final_prompt negativePrompt (prompt item);
          st1 = st\<lparr>generate_calls := generate_calls st @ [finalPrompt]\<rparr>
      in case generateImage e i finalPrompt of
           Inl err \<Rightarrow> catch_error i err st1
         | Inr generated \<Rightarrow>
             (case watermark e i generated of
                Inl err \<Rightarrow> catch_error i err st1
              | Inr base64 \<Rightarrow>
                  let st2 = set_imageUrl i base64 (set_status i Done st1)
                  in st2\<lparr>history :=
                           saveToHistory (env_browser e) (setItem e) (history st2)
                             (js ''Bulk: '' @ prompt item) base64\<rparr>))"

text \<open>The rate limiting delay: \<open>if (i < bulkQueue.length - 1)\<close>.\<close>

definition rate_limit_delay :: "nat \<Rightarrow> bulk_state \<Rightarrow> bulk_state" where
  "rate_limit_delay i st =
     (if int i < int (length (bulkQueue st)) - 1 then st\<lparr>delays := delays st + 1\<rparr> else st)"

text \<open>
  One pass through the body of the process loop. \<open>document.getElementById(item.id)\<close>
  finds a row when one with that id is in the list; without one the pass is skipped by
  \<open>continue\<close>. The status becomes \<open>generating\<close>, and the next statement,
  \<open>statusText.innerText = 'Generating...'\<close>, stands before the \<open>try\<close>: when
  \<open>statusText\<close> is \<open>null\<close> its \<open>TypeError\<close> is caught by nothing and ends the run.
\<close>

definition iteration :: "environment \<Rightarrow> jsstring \<Rightarrow> nat \<Rightarrow> bulk_state \<Rightarrow> bulk_state" where
  "iteration e negativePrompt i st =
     (let item = bulkQueue st ! i
      in if item_id item \<notin> set (rows st) then st
         else if \<not> status_text e i
           then (set_status i Generating st)\<lparr>uncaught := Some TypeError\<rparr>
         else rate_limit_delay i
                (try_generate e negativePrompt i item (set_status i Generating st)))"

text \<open>
  The process loop \<open>for (let i = 0; i < bulkQueue.length; i++)\<close>, from \<open>i\<close> on; it is
  left at once by an error that nothing catches.
\<close>

function process_loop :: "environment \<Rightarrow> jsstring \<Rightarrow> nat \<Rightarrow> bulk_state \<Rightarrow> bulk_state" where
  "process_loop e negativePrompt i st =
     (if i < length (bulkQueue st) \<and> uncaught st = None
      then process_loop e negativePrompt (Suc i) (iteration e negativePrompt i st)
      else st)"
  by pat_completeness auto
termination
  by (relation "measure (\<lambda>(e, negativePrompt, i, st). length (bulkQueue st) - i)")
     (auto simp: iteration_def rate_limit_delay_def try_generate_def catch_error_def
        set_status_def set_imageUrl_def Let_def split: sum.splits)

declare process_loop.simps [simp del]

text \<open>The queue built by \<open>prompts.map((p, i) => ...)\<close>.\<close>

definition new_item :: "environment \<Rightarrow> nat \<times> jsstring \<Rightarrow> BulkItem" where
  "new_item e ip =
     (case ip of (i, p) \<Rightarrow>
        \<lparr>item_id = js ''bulk-'' @ decimal (now e i) @ js ''-'' @ decimal i,
         prompt = trim p, status = Pending, imageUrl = None\<rparr>)"

definition new_queue :: "environment \<Rightarrow> jsstring list \<Rightarrow> BulkItem list" where
  "new_queue e prompts = map (new_item e) (enumerate 0 prompts)"

text \<open>
  \<open>runBulkGeneration(prompts, apiKey, aspectRatio, imageSize, negativePrompt)\<close>: a new
  queue, one row per item, then the loop. An error that nothing catches in the loop
  rejects the promise; then the click handler, which awaits it, ends there too.
\<close>

definition runBulkGeneration :: "environment \<Rightarrow> bulk_state \<Rightarrow> jsstring list \<Rightarrow> jsstring \<Rightarrow> bulk_state" where
  "runBulkGeneration e st prompts negativePrompt =
     (let queue = new_queue e prompts
      in process_loop e negativePrompt 0
           (st\<lparr>bulkQueue := queue, rows := map item_id queue, transitions := [],
               uncaught := None\<rparr>))"

text \<open>
  The bulk branch of the click handler of the generate button, reached with an API key
  and the mode \<open>bulk\<close>: \<open>promptValue\<close> is the text area's value, \<open>negativeInput\<close> the
  negative prompt field's.
\<close>

definition bulk_prompts :: "jsstring \<Rightarrow> jsstring list" where
  "bulk_prompts promptValue = filter (\<lambda>p. length p > 0) (map trim (split_lines promptValue))"

definition generate_click_bulk :: "environment \<Rightarrow> bulk_state \<Rightarrow> jsstring \<Rightarrow> jsstring \<Rightarrow> bulk_state" where
  "generate_click_bulk e st promptValue negativeInput =
     (let negativePrompt = trim negativeInput;
          prompts = bulk_prompts promptValue
      in if length prompts = 0
         then st\<lparr>status_error :=
                   Some (js ''Please enter at least one prompt for bulk generation.'')\<rparr>
         else runBulkGeneration e st prompts negativePrompt)"

text \<open>The loop with the watermark stage of the program in place.\<close>

definition with_applyWatermark ::
  "environment \<Rightarrow> (nat \<Rightarrow> watermark_controls) \<Rightarrow> (nat \<Rightarrow> jsstring option) \<Rightarrow> environment" where
  "with_applyWatermark e controls logo =
     e\<lparr>watermark := (\<lambda>i. applyWatermark (env_browser e) (controls i) (logo i))\<rparr>"

section \<open>What a finished job looks like\<close>

text \<open>What the \<open>try\<close> block of job \<open>i\<close> ends with: a rejection, or the final image.\<close>

definition job_result :: "environment \<Rightarrow> jsstring \<Rightarrow> nat \<Rightarrow> BulkItem \<Rightarrow> jserror + jsstring" where
  "job_result e negativePrompt i item =
     (case generateImage e i (final_prompt negativePrompt (prompt item)) of
        Inl err \<Rightarrow> Inl err
      | Inr generated \<Rightarrow> watermark e i generated)"

definition finished :: "environment \<Rightarrow> jsstring \<Rightarrow> nat \<Rightarrow> BulkItem \<Rightarrow> BulkItem" where
  "finished e negativePrompt i item =
     (case job_result e negativePrompt i item of
        Inl err \<Rightarrow> item\<lparr>status := Error\<rparr>
      | Inr base64 \<Rightarrow> item\<lparr>status := Done, imageUrl := Some base64\<rparr>)"

definition job_events :: "environment \<Rightarrow> jsstring \<Rightarrow> nat \<Rightarrow> BulkItem \<Rightarrow> (nat \<times> status) list" where
  "job_events e negativePrompt i item =
     [(i, Generating), (i, status (finished e negativePrompt i item))]"

text \<open>The state of the loop before pass \<open>i\<close>, for the queue \<open>q0\<close> it started with.\<close>

definition loop_inv ::
  "environment \<Rightarrow> jsstring \<Rightarrow> BulkItem list \<Rightarrow> jsstring list \<Rightarrow> nat \<Rightarrow> bulk_state \<Rightarrow> bool" where
  "loop_inv e negativePrompt q0 calls0 i st \<longleftrightarrow>
     length (bulkQueue st) = length q0 \<and>
     (\<forall>j < length q0.
        bulkQueue st ! j = (if j < i then finished e negativePrompt j (q0 ! j) else q0 ! j)) \<and>
     rows st = map item_id q0 \<and>
     generate_calls st =
       calls0 @ map (\<lambda>item. final_prompt negativePrompt (prompt item)) (take i q0) \<and>
     transitions st = concat (map (\<lambda>j. job_events e negativePrompt j (q0 ! j)) [0..<i]) \<and>
     uncaught st = None"

text \<open>
  The first job whose row has no status element (the number of jobs when there is
  none), and the state in which the loop ends when that job is \<open>k\<close>.
\<close>

definition first_broken :: "environment \<Rightarrow> nat \<Rightarrow> nat" where
  "first_broken e n = length (takeWhile (status_text e) [0..<n])"

definition end_inv ::
  "environment \<Rightarrow> jsstring \<Rightarrow> BulkItem list \<Rightarrow> jsstring list \<Rightarrow> nat \<Rightarrow> bulk_state \<Rightarrow> bool" where
  "end_inv e negativePrompt q0 calls0 k st \<longleftrightarrow>
     length (bulkQueue st) = length q0 \<and>
     (\<forall>j < length q0.
        bulkQueue st ! j =
          (if j < k then finished e negativePrompt j (q0 ! j)
           else if j = k then (q0 ! j)\<lparr>status := Generating\<rparr>
           else q0 ! j)) \<and>
     generate_calls st =
       calls0 @ map (\<lambda>item. final_prompt negativePrompt (prompt item)) (take k q0) \<and>
     transitions st =
       concat (map (\<lambda>j. job_events e negativePrompt j (q0 ! j)) [0..<k]) @
       (if k < length q0 then [(k, Generating)] else []) \<and>
     uncaught st = (if k < length q0 then Some TypeError else None)"

text \<open>
  The steps a status may take, and the replay of a log of status assignments on the
  statuses of a queue: \<open>None\<close> as soon as an assignment is not such a step.
\<close>

fun forward :: "status \<Rightarrow> status \<Rightarrow> bool" where
  "forward Pending Generating = True"
| "forward Generating Done = True"
| "forward Generating Error = True"
| "forward _ _ = False"

fun replay :: "status list \<Rightarrow> (nat \<times> status) list \<Rightarrow> status list option" where
  "replay statuses [] = Some statuses"
| "replay statuses ((i, s) # events) =
     (if i < length statuses \<and> forward (statuses ! i) s
      then replay (statuses[i := s]) events
      else None)"

section \<open>Download of the bulk results\<close>

text \<open>
  The pattern \<open>/^data:(image\/[a-z]+);base64,(.+)$/\<close>: the two groups of a match. The
  letters after \<open>image/\<close> are followed by \<open>;\<close>, so the greedy \<open>[a-z]+\<close> is the longest
  run of lower-case letters.
\<close>

definition match_data_url :: "jsstring \<Rightarrow> (jsstring \<times> jsstring) option" where
  "match_data_url s =
     (let prefix = js ''data:image/'';
          rest = drop (length prefix) s;
          subtype = takeWhile isLower rest;
          rest2 = dropWhile isLower rest;
          sep = js '';base64,'';
          payload = drop (length sep) rest2
      in if take (length prefix) s = prefix \<and> subtype \<noteq> [] \<and> take (length sep) rest2 = sep \<and>
            payload \<noteq> [] \<and> \<not> list_ex isLineTerminator payload
         then Some (js ''image/'' @ subtype, payload)
         else None)"

text \<open>\<open>match[1].split('/')[1]\<close>, for a first group \<open>image/...\<close> with one slash.\<close>

definition extension :: "jsstring \<Rightarrow> jsstring" where
  "extension mime = drop (length (js ''image/'')) mime"

text \<open>\<open>item.prompt.substring(0, 15).replace(/[^a-z0-9]/gi, '_')\<close>.\<close>

definition sanitize :: "jsstring \<Rightarrow> jsstring" where
  "sanitize p = map (\<lambda>c. if isAlnum c then c else 95) (take 15 p)"

definition filename :: "nat \<Rightarrow> BulkItem \<Rightarrow> jsstring \<Rightarrow> jsstring" where
  "filename index item ext =
     js ''image_'' @ decimal (index + 1) @ js ''_'' @ sanitize (prompt item) @ js ''.'' @ ext"

text \<open>
  The body of \<open>bulkQueue.forEach((item, index) => ...)\<close> on the folder (file name and
  base64 payload of each entry; \<open>folder.file\<close> replaces an entry of the same name) and
  the counter.
\<close>

definition zip_item ::
  "nat \<times> BulkItem \<Rightarrow> (jsstring \<times> jsstring) list \<times> nat \<Rightarrow> (jsstring \<times> jsstring) list \<times> nat" where
  "zip_item ii acc =
     (case ii of (index, item) \<Rightarrow>
      case acc of (folder, count) \<Rightarrow>
        if status item = Done \<and> imageUrl item \<noteq> None \<and> imageUrl item \<noteq> Some []
        then (case match_data_url (the (imageUrl item)) of
                None \<Rightarrow> (folder, count)
              | Some (mime, payload) \<Rightarrow>
                  (AList.update (filename index item (extension mime)) payload folder, count + 1))
        else (folder, count))"

datatype download_result =
    Alert jsstring
  | Download "(jsstring \<times> jsstring) list"

text \<open>\<open>downloadBulkZip()\<close>; \<open>jszip\<close> says whether \<open>window.JSZip\<close> is there.\<close>

definition downloadBulkZip :: "bool \<Rightarrow> BulkItem list \<Rightarrow> download_result" where
  "downloadBulkZip jszip queue =
     (if \<not> jszip then Alert (js ''JSZip library not loaded.'')
      else (case fold zip_item (enumerate 0 queue) ([], 0) of
              (folder, count) \<Rightarrow>
                if count > 0 then Download folder
                else Alert (js ''No successful images to download.'')))"

text \<open>
  The items \<open>downloadBulkZip\<close> takes: done, with an image URL that matches the
  pattern; and the entry made for such an item at its index.
\<close>

definition exportable :: "BulkItem \<Rightarrow> bool" where
  "exportable item \<longleftrightarrow>
     status item = Done \<and> imageUrl item \<noteq> None \<and> imageUrl item \<noteq> Some [] \<and>
     match_data_url (the (imageUrl item)) \<noteq> None"

definition entry_of :: "nat \<times> BulkItem \<Rightarrow> jsstring \<times> jsstring" where
  "entry_of ii =
     (case ii of (index, item) \<Rightarrow>
        case the (match_data_url (the (imageUrl item))) of
          (mime, payload) \<Rightarrow> (filename index item (extension mime), payload))"

definition entries :: "BulkItem list \<Rightarrow> (jsstring \<times> jsstring) list" where
  "entries queue = map entry_of (filter (\<lambda>ii. exportable (snd ii)) (enumerate 0 queue))"

text \<open>
  The pattern read as a decomposition of the URL, and the file name of an entry spelled
  out, both written independently of the definitions above: \<open>data:image/\<close>, one or
  more lower-case letters, \<open>;base64,\<close>, and a payload of one or more characters none
  of which is a line terminator; \<open>image_\<close>, the index plus one, \<open>_\<close>, the first 15
  code units of the prompt with each one outside \<open>[A-Za-z0-9]\<close> replaced by \<open>_\<close>, a
  dot, and the letters of the image type.
\<close>

definition spec_data_url :: "jsstring \<Rightarrow> jsstring \<Rightarrow> jsstring \<Rightarrow> bool" where
  "spec_data_url url subtype payload \<longleftrightarrow>
     url = js ''data:image/'' @ subtype @ js '';base64,'' @ payload \<and>
     subtype \<noteq> [] \<and> list_all (\<lambda>c. 97 \<le> c \<and> c \<le> 122) subtype \<and>
     payload \<noteq> [] \<and> list_all (\<lambda>c. c \<noteq> 10 \<and> c \<noteq> 13 \<and> c \<noteq> 8232 \<and> c \<noteq> 8233) payload"

definition spec_filename :: "nat \<Rightarrow> jsstring \<Rightarrow> jsstring \<Rightarrow> jsstring" where
  "spec_filename index p subtype =
     js ''image_'' @ decimal (index + 1) @ js ''_'' @
     map (\<lambda>c. if (48 \<le> c \<and> c \<le> 57) \<or> (65 \<le> c \<and> c \<le> 90) \<or> (97 \<le> c \<and> c \<le> 122) then c else 95)
       (take 15 p) @
     js ''.'' @ subtype"

text \<open>The characters of a file name stem, and those of a whole file name.\<close>

definition isStemChar :: "code_unit \<Rightarrow> bool" where
  "isStemChar c \<longleftrightarrow> isAlnum c \<or> c = 95"

definition isNameChar :: "code_unit \<Rightarrow> bool" where
  "isNameChar c \<longleftrightarrow> isStemChar c \<or> c = 46"

section \<open>Example inputs\<close>

text \<open>
  A browser in which every data URL that starts with \<open>data:\<close> loads as a 1000 by 1000
  image and nothing else loads, a context is available, every text measures 100 wide,
  and the encoder writes a fixed payload.
\<close>

definition example_browser :: browser where
  "example_browser =
     \<lparr>loadImage = (\<lambda>s. if take 5 s = js ''data:'' then Some (1000, 1000) else None),
      getContext = True,
      measureText = (\<lambda>fontSize text. 100),
      toDataURL = (\<lambda>c mime quality. js ''data:'' @ mime @ js '';base64,AAAA'')\<rparr>"

definition example_controls :: watermark_controls where
  "example_controls =
     \<lparr>watermark_toggle = Some True, wm_type_text = True, wm_opacity = 1 / 2,
      wm_position = js ''bottom-right'', wm_text = []\<rparr>"

definition example_image :: jsstring where
  "example_image = js ''data:image/png;base64,iVBO''"

text \<open>
  An environment in which the generation of the prompt \<open>b\<close> is refused and every other
  prompt yields the example image, the watermark stage is the program's with the example
  controls, the storage accepts every write and every row has its status element; and a
  state with nothing in it.
\<close>

definition example_env :: environment where
  "example_env =
     \<lparr>generateImage =
        (\<lambda>i p. if p = js ''b'' then Inl (Thrown (js ''refused'')) else Inr example_image),
      watermark = (\<lambda>i. applyWatermark example_browser example_controls None),
      env_browser = example_browser,
      setItem = (\<lambda>h. Stored),
      now = (\<lambda>i. 1000),
      status_text = (\<lambda>i. True)\<rparr>"

definition empty_state :: bulk_state where
  "empty_state =
     \<lparr>bulkQueue = [], rows = [], history = [], status_error = None, generate_calls = [],
      transitions = [], console_errors = [], delays = 0, uncaught = None\<rparr>"

text \<open>
  The example environment with a generation that yields a string no image loads from;
  and a queue of two done jobs, the second with an image type outside \<open>[a-z]+\<close>.
\<close>

definition garbage_env :: environment where
  "garbage_env = example_env\<lparr>generateImage := (\<lambda>i p. Inr (js ''garbage''))\<rparr>"

text \<open>
  The example environment for a batch whose second prompt is \<open><!--\<close>: the row of job
  1 has no status element. And a queue with a done job whose prompt is longer than 15
  code units and whose image is a JPEG.
\<close>

definition markup_env :: environment where
  "markup_env = example_env\<lparr>status_text := (\<lambda>i. i \<noteq> 1)\<rparr>"

definition long_queue :: "BulkItem list" where
  "long_queue =
     [\<lparr>item_id = js ''bulk-1000-0'', prompt = js ''skipped'', status = Error, imageUrl = None\<rparr>,
      \<lparr>item_id = js ''bulk-1000-1'', prompt = js ''A cat, on a mat at noon!'', status = Done,
       imageUrl = Some (js ''data:image/jpeg;base64,/9j/4A=='')\<rparr>]"

definition example_queue :: "BulkItem list" where
  "example_queue =
     [\<lparr>item_id = js ''bulk-1000-0'', prompt = js ''a cat'', status = Done,
       imageUrl = Some (js ''data:image/png;base64,iVBO'')\<rparr>,
      \<lparr>item_id = js ''bulk-1000-1'', prompt = js ''a dog'', status = Done,
       imageUrl = Some (js ''data:image/svg+xml;base64,PHN2'')\<rparr>]"

section \<open>Properties of the watermark stage\<close>

lemma applyWatermark_resolves: "\<exists>s. applyWatermark b d logo base64Image = Inr s"
  by (auto simp: applyWatermark_def split: option.splits)

text \<open>
  C6. When the watermark toggle is missing or not checked, \<open>applyWatermark\<close> resolves
  with the very string it was given: no decode, no canvas, no re-encode.
\<close>

theorem applyWatermark_disabled_identity:
  assumes "watermark_toggle d = None \<or> watermark_toggle d = Some False"
  shows "applyWatermark b d logo base64Image = Inr base64Image"
  using assms by (auto simp: applyWatermark_def)

theorem applyWatermark_disabled_identity_witness:
  "(watermark_toggle (example_controls\<lparr>watermark_toggle := Some False\<rparr>) = None \<or>
    watermark_toggle (example_controls\<lparr>watermark_toggle := Some False\<rparr>) = Some False) \<and>
   applyWatermark example_browser (example_controls\<lparr>watermark_toggle := Some False\<rparr>) None
     example_image = Inr example_image"
  using applyWatermark_disabled_identity
    [of "example_controls\<lparr>watermark_toggle := Some False\<rparr>" example_browser None example_image]
  by (simp add: example_controls_def)

text \<open>
  C7. With the image kind selected (\<open>#wm-type-text\<close> not active) and a logo set whose
  load fails, \<open>applyWatermark\<close> resolves with the input image itself and does not
  reject, whatever the primary image, the toggle and the context are: every path that
  reaches the logo ends in \<open>logo.onerror\<close>, and every path that does not reach it has
  already resolved with the input.
\<close>

theorem applyWatermark_logo_fail_open:
  assumes "\<not> wm_type_text d" and "logo = Some l" and "l \<noteq> []" and "loadImage b l = None"
  shows "applyWatermark b d logo base64Image = Inr base64Image"
  using assms by (auto simp: applyWatermark_def split: option.splits)

theorem applyWatermark_logo_fail_open_witness:
  "\<not> wm_type_text (example_controls\<lparr>wm_type_text := False\<rparr>) \<and>
   Some (js ''broken logo'') = Some (js ''broken logo'') \<and> js ''broken logo'' \<noteq> [] \<and>
   loadImage example_browser (js ''broken logo'') = None \<and>
   loadImage example_browser example_image = Some (1000, 1000) \<and>
   applyWatermark example_browser (example_controls\<lparr>wm_type_text := False\<rparr>)
     (Some (js ''broken logo'')) example_image = Inr example_image"
  using applyWatermark_logo_fail_open
    [of "example_controls\<lparr>wm_type_text := False\<rparr>" "Some (js ''broken logo'')"
        "js ''broken logo''" example_browser example_image]
  by (simp add: example_controls_def example_browser_def example_image_def js_def)

text \<open>
  C9. For the position \<open>bottom-right\<close> the text is drawn at
  \<open>x = img.width - textWidth - padding\<close>, \<open>y = img.height - padding\<close> with the baseline
  \<open>bottom\<close>. On a 1000 by 1000 image the padding is 30 and the font size 50, and a text
  measured 100 wide is drawn at (870, 970).
\<close>

theorem text_origin_bottom_right:
  "text_origin (js ''bottom-right'') img_width img_height textWidth =
     (real img_width - textWidth - padding_of img_width,
      real img_height - padding_of img_width, js ''bottom'') \<and>
   padding_of 1000 = 30 \<and> fontSize_of 1000 = 50 \<and>
   text_origin (js ''bottom-right'') 1000 1000 100 = (870, 970, js ''bottom'')"
  by (simp add: padding_of_def fontSize_of_def text_origin_def Let_def)

text \<open>
  C10. With the watermark enabled, the text kind selected and an empty \<open>#wm-text\<close>, an
  image that loads (and a context) is re-encoded as PNG from a canvas on which the
  literal text \<open>Watermark\<close> has been drawn over the image.
\<close>

theorem applyWatermark_default_text:
  assumes "watermark_toggle d = Some True" and "loadImage b base64Image = Some (w, h)"
    and "getContext b" and "wm_type_text d" and "wm_text d = []"
  shows "applyWatermark b d logo base64Image =
           Inr (toDataURL b (text_canvas b d base64Image w h) (js ''image/png'') None) \<and>
         (\<exists>x y style. ops (text_canvas b d base64Image w h) =
            [(1, DrawImage base64Image 0 0 None),
             (wm_opacity d, FillText (js ''Watermark'') x y style)])"
  using assms
  by (auto simp: applyWatermark_def text_canvas_def watermark_text_def Let_def split: prod.splits)

theorem applyWatermark_default_text_witness:
  "watermark_toggle example_controls = Some True \<and>
   loadImage example_browser example_image = Some (1000, 1000) \<and>
   getContext example_browser \<and> wm_type_text example_controls \<and> wm_text example_controls = [] \<and>
   applyWatermark example_browser example_controls None example_image =
     Inr (js ''data:image/png;base64,AAAA'') \<and>
   ops (text_canvas example_browser example_controls example_image 1000 1000) =
     [(1, DrawImage example_image 0 0 None),
      (1 / 2, FillText (js ''Watermark'') 870 970
         \<lparr>font_px = 50, textBaseline = js ''bottom'', shadowColor = js ''rgba(0,0,0,0.5)'',
          shadowBlur = 4, fillStyle = js ''white''\<rparr>)]"
  using applyWatermark_default_text
    [of example_controls example_browser example_image 1000 1000 None]
  by (simp add: example_controls_def example_browser_def example_image_def js_def
      text_canvas_def Let_def watermark_text_def text_origin_def padding_of_def fontSize_of_def)

section \<open>The process loop\<close>

lemma iteration_effect:
  assumes "i < length (bulkQueue st)" and "item_id (bulkQueue st ! i) \<in> set (rows st)"
    and "status_text e i"
  shows "bulkQueue (iteration e neg i st) = (bulkQueue st)[i := finished e neg i (bulkQueue st ! i)]"
    and "generate_calls (iteration e neg i st) =
           generate_calls st @ [final_prompt neg (prompt (bulkQueue st ! i))]"
    and "transitions (iteration e neg i st) = transitions st @ job_events e neg i (bulkQueue st ! i)"
    and "rows (iteration e neg i st) = rows st"
    and "uncaught (iteration e neg i st) = uncaught st"
  using assms
  by (auto simp: iteration_def rate_limit_delay_def try_generate_def catch_error_def
      set_status_def set_imageUrl_def finished_def job_result_def job_events_def Let_def
      split: sum.splits)

lemma iteration_abort:
  assumes "item_id (bulkQueue st ! i) \<in> set (rows st)" and "\<not> status_text e i"
  shows "iteration e neg i st = (set_status i Generating st)\<lparr>uncaught := Some TypeError\<rparr>"
  using assms by (simp add: iteration_def)

lemma loop_inv_step:
  assumes inv: "loop_inv e neg q0 c0 i st" and i: "i < length q0" and ok: "status_text e i"
  shows "loop_inv e neg q0 c0 (Suc i) (iteration e neg i st)"
proof -
  from inv have len: "length (bulkQueue st) = length q0"
    and nth: "\<And>j. j < length q0 \<Longrightarrow>
                bulkQueue st ! j = (if j < i then finished e neg j (q0 ! j) else q0 ! j)"
    and rws: "rows st = map item_id q0"
    and calls: "generate_calls st = c0 @ map (\<lambda>item. final_prompt neg (prompt item)) (take i q0)"
    and trans: "transitions st = concat (map (\<lambda>j. job_events e neg j (q0 ! j)) [0..<i])"
    and unc: "uncaught st = None"
    by (simp_all add: loop_inv_def)
  have cur: "bulkQueue st ! i = q0 ! i" using nth [OF i] by simp
  have il: "i < length (bulkQueue st)" using i len by simp
  have row: "item_id (bulkQueue st ! i) \<in> set (rows st)"
    using i by (simp add: cur rws)
  note eff = iteration_effect [OF il row ok, of neg]
  have "length (bulkQueue (iteration e neg i st)) = length q0"
    by (simp add: eff len)
  moreover have "\<forall>j < length q0. bulkQueue (iteration e neg i st) ! j =
      (if j < Suc i then finished e neg j (q0 ! j) else q0 ! j)"
    using nth len by (auto simp: eff cur nth_list_update less_Suc_eq)
  moreover have "rows (iteration e neg i st) = map item_id q0"
    by (simp add: eff rws)
  moreover have "generate_calls (iteration e neg i st) =
      c0 @ map (\<lambda>item. final_prompt neg (prompt item)) (take (Suc i) q0)"
    using i by (simp add: eff calls cur take_Suc_conv_app_nth)
  moreover have "transitions (iteration e neg i st) =
      concat (map (\<lambda>j. job_events e neg j (q0 ! j)) [0..<Suc i])"
    by (simp add: eff trans cur)
  moreover have "uncaught (iteration e neg i st) = None"
    by (simp add: eff unc)
  ultimately show ?thesis by (simp add: loop_inv_def)
qed

lemma loop_inv_abort:
  assumes inv: "loop_inv e neg q0 c0 k st" and k: "k < length q0" and broken: "\<not> status_text e k"
  shows "end_inv e neg q0 c0 k (iteration e neg k st)"
proof -
  from inv have len: "length (bulkQueue st) = length q0"
    and nth: "\<And>j. j < length q0 \<Longrightarrow>
                bulkQueue st ! j = (if j < k then finished e neg j (q0 ! j) else q0 ! j)"
    and rws: "rows st = map item_id q0"
    and calls: "generate_calls st = c0 @ map (\<lambda>item. final_prompt neg (prompt item)) (take k q0)"
    and trans: "transitions st = concat (map (\<lambda>j. job_events e neg j (q0 ! j)) [0..<k])"
    by (simp_all add: loop_inv_def)
  have cur: "bulkQueue st ! k = q0 ! k" using nth [OF k] by simp
  have row: "item_id (bulkQueue st ! k) \<in> set (rows st)"
    using k by (simp add: cur rws)
  have it: "iteration e neg k st = (set_status k Generating st)\<lparr>uncaught := Some TypeError\<rparr>"
    using row broken by (rule iteration_abort)
  have "\<forall>j < length q0. bulkQueue (iteration e neg k st) ! j =
      (if j < k then finished e neg j (q0 ! j)
       else if j = k then (q0 ! j)\<lparr>status := Generating\<rparr> else q0 ! j)"
    using nth len by (auto simp: it set_status_def cur nth_list_update)
  then show ?thesis
    using k len calls trans by (simp add: end_inv_def it set_status_def)
qed

lemma loop_inv_end:
  assumes "loop_inv e neg q0 c0 (length q0) st"
  shows "end_inv e neg q0 c0 (length q0) st"
  using assms by (simp add: loop_inv_def end_inv_def)

lemma process_loop_end:
  "loop_inv e neg q0 c0 i st \<Longrightarrow> i \<le> k \<Longrightarrow> k \<le> length q0 \<Longrightarrow>
   (\<forall>j. i \<le> j \<and> j < k \<longrightarrow> status_text e j) \<Longrightarrow> (k < length q0 \<longrightarrow> \<not> status_text e k) \<Longrightarrow>
   end_inv e neg q0 c0 k (process_loop e neg i st)"
proof (induction e neg i st rule: process_loop.induct)
  case (1 e neg i st)
  have len: "length (bulkQueue st) = length q0" and unc: "uncaught st = None"
    using "1.prems"(1) by (simp_all add: loop_inv_def)
  show ?case
  proof (cases "i < length q0")
    case False
    then have "i = length q0" and "k = length q0" using "1.prems"(2,3) by simp_all
    then show ?thesis
      using "1.prems"(1) len by (subst process_loop.simps) (simp add: loop_inv_end)
  next
    case True
    have unfold: "process_loop e neg i st = process_loop e neg (Suc i) (iteration e neg i st)"
      using True len unc by (subst process_loop.simps) simp
    show ?thesis
    proof (cases "i = k")
      case True
      then have k: "k < length q0" and broken: "\<not> status_text e k"
        using \<open>i < length q0\<close> "1.prems"(5) by simp_all
      have fin: "end_inv e neg q0 c0 k (iteration e neg k st)"
        using "1.prems"(1) k broken True by (simp add: loop_inv_abort)
      then have "uncaught (iteration e neg k st) = Some TypeError"
        using k by (simp add: end_inv_def)
      then have "process_loop e neg (Suc k) (iteration e neg k st) = iteration e neg k st"
        by (subst process_loop.simps) simp
      then show ?thesis using fin unfold True by simp
    next
      case False
      then have lt: "i < k" using "1.prems"(2) by simp
      then have ok: "status_text e i" using "1.prems"(4) by simp
      have step: "loop_inv e neg q0 c0 (Suc i) (iteration e neg i st)"
        using "1.prems"(1) \<open>i < length q0\<close> ok by (rule loop_inv_step)
      have "end_inv e neg q0 c0 k (process_loop e neg (Suc i) (iteration e neg i st))"
        using "1.IH" \<open>i < length q0\<close> len unc step lt "1.prems"(3,4,5) by simp
      then show ?thesis by (simp only: unfold)
    qed
  qed
qed

lemma first_broken_le: "first_broken e n \<le> n"
  using length_takeWhile_le [of "status_text e" "[0..<n]"] by (simp add: first_broken_def)

lemma first_broken_before: "j < first_broken e n \<Longrightarrow> status_text e j"
proof -
  assume j: "j < first_broken e n"
  let ?t = "takeWhile (status_text e) [0..<n]"
  have "?t ! j \<in> set ?t" using j by (simp add: first_broken_def)
  then have "status_text e (?t ! j)" by (rule set_takeWhileD [THEN conjunct2])
  moreover have "?t ! j = [0..<n] ! j" using j by (simp add: first_broken_def takeWhile_nth)
  moreover have "j < n" using j first_broken_le [of e n] by simp
  ultimately show ?thesis by simp
qed

lemma first_broken_at: "first_broken e n < n \<Longrightarrow> \<not> status_text e (first_broken e n)"
  using nth_length_takeWhile [of "status_text e" "[0..<n]"] by (simp add: first_broken_def)

lemma first_broken_intact: "(\<forall>j < n. status_text e j) \<Longrightarrow> first_broken e n = n"
  using first_broken_at [of e n] first_broken_le [of e n] by (metis le_neq_implies_less)

lemma first_broken_after: "i < n \<Longrightarrow> (\<forall>j \<le> i. status_text e j) \<Longrightarrow> i < first_broken e n"
  using first_broken_at [of e n] by (metis le_less_trans not_le_imp_less)

lemma runBulkGeneration_end:
  "end_inv e neg (new_queue e prompts) (generate_calls st) (first_broken e (length prompts))
     (runBulkGeneration e st prompts neg)"
proof -
  let ?q = "new_queue e prompts"
  let ?k = "first_broken e (length prompts)"
  let ?st0 = "st\<lparr>bulkQueue := ?q, rows := map item_id ?q, transitions := [], uncaught := None\<rparr>"
  have n: "length ?q = length prompts" by (simp add: new_queue_def)
  have "loop_inv e neg ?q (generate_calls st) 0 ?st0"
    by (simp add: loop_inv_def)
  moreover have "?k \<le> length ?q" by (simp add: n first_broken_le)
  moreover have "\<forall>j. 0 \<le> j \<and> j < ?k \<longrightarrow> status_text e j" by (simp add: first_broken_before)
  moreover have "?k < length ?q \<longrightarrow> \<not> status_text e ?k" by (simp add: n first_broken_at)
  ultimately have "end_inv e neg ?q (generate_calls st) ?k (process_loop e neg 0 ?st0)"
    by (intro process_loop_end) simp_all
  then show ?thesis by (simp add: runBulkGeneration_def Let_def)
qed

lemma new_queue_nth: "j < length prompts \<Longrightarrow> new_queue e prompts ! j = new_item e (j, prompts ! j)"
  by (simp add: new_queue_def nth_enumerate_eq)

lemma length_new_queue: "length (new_queue e prompts) = length prompts"
  by (simp add: new_queue_def)

lemma run_length: "length (bulkQueue (runBulkGeneration e st prompts neg)) = length prompts"
  using runBulkGeneration_end [of e neg prompts st]
  by (simp add: end_inv_def length_new_queue)

lemma run_nth:
  "j < length prompts \<Longrightarrow>
   bulkQueue (runBulkGeneration e st prompts neg) ! j =
     (if j < first_broken e (length prompts) then finished e neg j (new_item e (j, prompts ! j))
      else if j = first_broken e (length prompts)
        then (new_item e (j, prompts ! j))\<lparr>status := Generating\<rparr>
      else new_item e (j, prompts ! j))"
  using runBulkGeneration_end [of e neg prompts st]
  by (simp add: end_inv_def length_new_queue new_queue_nth)

lemma run_calls:
  "generate_calls (runBulkGeneration e st prompts neg) =
     generate_calls st @
     map (\<lambda>p. final_prompt neg (trim p)) (take (first_broken e (length prompts)) prompts)"
proof -
  let ?k = "first_broken e (length prompts)"
  have "map (\<lambda>item. final_prompt neg (prompt item)) (take ?k (new_queue e prompts)) =
        map (\<lambda>p. final_prompt neg (trim p)) (take ?k prompts)"
    by (rule nth_equalityI) (simp_all add: length_new_queue new_queue_nth new_item_def)
  then show ?thesis
    using runBulkGeneration_end [of e neg prompts st] by (simp add: end_inv_def)
qed

lemma run_transitions:
  "transitions (runBulkGeneration e st prompts neg) =
     concat (map (\<lambda>j. job_events e neg j (new_item e (j, prompts ! j)))
               [0..<first_broken e (length prompts)]) @
     (if first_broken e (length prompts) < length prompts
      then [(first_broken e (length prompts), Generating)] else [])"
proof -
  let ?k = "first_broken e (length prompts)"
  have "map (\<lambda>j. job_events e neg j (new_queue e prompts ! j)) [0..<?k] =
        map (\<lambda>j. job_events e neg j (new_item e (j, prompts ! j))) [0..<?k]"
  proof (rule map_cong)
    fix j assume "j \<in> set [0..<?k]"
    then have "j < length prompts" using first_broken_le [of e "length prompts"] by simp
    then show "job_events e neg j (new_queue e prompts ! j) =
        job_events e neg j (new_item e (j, prompts ! j))"
      by (simp add: new_queue_nth)
  qed simp
  moreover have "transitions (runBulkGeneration e st prompts neg) =
      concat (map (\<lambda>j. job_events e neg j (new_queue e prompts ! j)) [0..<?k]) @
      (if ?k < length prompts then [(?k, Generating)] else [])"
    using runBulkGeneration_end [of e neg prompts st]
    by (simp add: end_inv_def length_new_queue)
  ultimately show ?thesis by (simp only:)
qed

lemma run_uncaught:
  "uncaught (runBulkGeneration e st prompts neg) =
     (if first_broken e (length prompts) < length prompts then Some TypeError else None)"
  using runBulkGeneration_end [of e neg prompts st]
  by (simp add: end_inv_def length_new_queue)

lemma status_finished:
  "status (finished e neg i item) = (case job_result e neg i item of Inl err \<Rightarrow> Error | Inr b \<Rightarrow> Done)"
  by (simp add: finished_def split: sum.splits)

lemma prompt_finished: "prompt (finished e neg i item) = prompt item"
  by (simp add: finished_def split: sum.splits)

lemma three_statuses:
  assumes "length q = 3" and "status (q ! 0) = a" and "status (q ! 1) = b" and "status (q ! 2) = c"
  shows "map status q = [a, b, c]"
proof (rule nth_equalityI)
  show "length (map status q) = length [a, b, c]" using assms(1) by simp
next
  fix j assume "j < length (map status q)"
  then have "j = 0 \<or> j = 1 \<or> j = 2" using assms(1) by auto
  then show "map status q ! j = [a, b, c] ! j" using assms by auto
qed

lemma markup_first_broken: "first_broken markup_env (Suc (Suc (Suc 0))) = 1"
  by (simp add: first_broken_def markup_env_def)

lemma example_first_broken: "first_broken example_env n = n"
  by (rule first_broken_intact) (simp add: example_env_def)

text \<open>
  C1. The isolation holds for a rejection of the generation or of the watermark stage,
  which the \<open>catch\<close> block takes, but not for the batch as a whole: for the prompts
  \<open>b\<close>, \<open><!--\<close>, \<open>c\<close> with the generation of \<open>b\<close> refused, job 0 ends \<open>error\<close>, job 1
  is left \<open>generating\<close> by the \<open>TypeError\<close> of its missing status element, which
  rejects the run, and job 2 stays \<open>pending\<close> without a call of \<open>generateImage\<close>.
\<close>

theorem markup_aborts_batch:
  "generateImage markup_env 0 (final_prompt [] (trim (js ''b''))) = Inl (Thrown (js ''refused'')) \<and>
   map status (bulkQueue (runBulkGeneration markup_env empty_state
                 [js ''b'', js ''<!--'', js ''c''] [])) = [Error, Generating, Pending] \<and>
   generate_calls (runBulkGeneration markup_env empty_state
                 [js ''b'', js ''<!--'', js ''c''] []) = [js ''b''] \<and>
   uncaught (runBulkGeneration markup_env empty_state
                 [js ''b'', js ''<!--'', js ''c''] []) = Some TypeError"
proof -
  let ?ps = "[js ''b'', js ''<!--'', js ''c'']"
  let ?R = "runBulkGeneration markup_env empty_state ?ps []"
  have k: "first_broken markup_env (length ?ps) = 1" by (simp add: markup_first_broken)
  have tb: "trim (js ''b'') = js ''b''"
    by (simp add: trim_def isWhiteSpace_def js_def)
  have gen: "generateImage markup_env 0 (final_prompt [] (trim (js ''b''))) =
      Inl (Thrown (js ''refused''))"
    by (simp add: tb markup_env_def example_env_def final_prompt_def)
  have r0: "job_result markup_env [] 0 (new_item markup_env (0, ?ps ! 0)) =
      Inl (Thrown (js ''refused''))"
    using gen by (simp add: job_result_def new_item_def)
  have s0: "status (bulkQueue ?R ! 0) = Error"
    using run_nth [of 0 ?ps markup_env empty_state "[]"] r0
    by (simp only: k) (simp add: status_finished)
  have s1: "status (bulkQueue ?R ! 1) = Generating"
    using run_nth [of 1 ?ps markup_env empty_state "[]"] by (simp only: k) simp
  have s2: "status (bulkQueue ?R ! 2) = Pending"
    using run_nth [of 2 ?ps markup_env empty_state "[]"]
    by (simp only: k) (simp add: new_item_def)
  have "length (bulkQueue ?R) = 3" by (simp add: run_length)
  then have st: "map status (bulkQueue ?R) = [Error, Generating, Pending]"
    using s0 s1 s2 by (rule three_statuses)
  have calls: "generate_calls ?R = [js ''b'']"
    using run_calls [of markup_env empty_state ?ps "[]"]
    by (simp only: k) (simp add: empty_state_def final_prompt_def tb)
  have unc: "uncaught ?R = Some TypeError"
    using run_uncaught [of markup_env empty_state ?ps "[]"] by (simp only: k) simp
  show ?thesis using gen st calls unc by simp
qed

lemma replay_append:
  "replay statuses (es1 @ es2) =
     (case replay statuses es1 of None \<Rightarrow> None | Some statuses' \<Rightarrow> replay statuses' es2)"
  by (induction statuses es1 rule: replay.induct) auto

lemma replay_jobs:
  assumes terminal: "\<And>j. j < n \<Longrightarrow> final j = Done \<or> final j = Error"
  shows "k \<le> n \<Longrightarrow>
    replay (replicate n Pending) (concat (map (\<lambda>j. [(j, Generating), (j, final j)]) [0..<k])) =
      Some (map (\<lambda>j. if j < k then final j else Pending) [0..<n])"
proof (induction k)
  case 0
  have "replicate n Pending = map (\<lambda>j. Pending) [0..<n]"
    by (rule nth_equalityI) simp_all
  then show ?case by simp
next
  case (Suc k)
  let ?S = "map (\<lambda>j. if j < k then final j else Pending) [0..<n]"
  have k: "k < n" using Suc.prems by simp
  have fwd: "forward Generating (final k)" using terminal [OF k] by auto
  have upd: "?S[k := final k] = map (\<lambda>j. if j < Suc k then final j else Pending) [0..<n]"
    by (rule nth_equalityI) (auto simp: nth_list_update less_Suc_eq)
  have "replay ?S [(k, Generating), (k, final k)] = Some (?S[k := final k])"
    using k fwd by simp
  then show ?case using Suc.IH k by (simp add: replay_append upd)
qed

lemma finished_terminal:
  "status (finished e neg i item) = Done \<or> status (finished e neg i item) = Error"
  by (simp add: status_finished split: sum.splits)

text \<open>
  C4. Every job of a new queue starts \<open>pending\<close>, and the log of all assignments to
  \<open>item.status\<close> made by a run replays on these statuses to the final ones with every
  assignment a step \<open>pending\<close> to \<open>generating\<close>, \<open>generating\<close> to \<open>done\<close> or
  \<open>generating\<close> to \<open>error\<close>. No step leaves \<open>done\<close> or \<open>error\<close> and none leads back to
  \<open>pending\<close>, so a job that has reached \<open>done\<close> or \<open>error\<close> is not assigned again.
\<close>

theorem status_moves_forward:
  "map status (new_queue e prompts) = replicate (length prompts) Pending \<and>
   replay (map status (new_queue e prompts))
     (transitions (runBulkGeneration e st prompts neg)) =
     Some (map status (bulkQueue (runBulkGeneration e st prompts neg))) \<and>
   (\<forall>s. \<not> forward Done s \<and> \<not> forward Error s \<and> \<not> forward s Pending)"
proof -
  let ?n = "length prompts"
  let ?k = "first_broken e ?n"
  let ?R = "runBulkGeneration e st prompts neg"
  let ?final = "\<lambda>j. status (finished e neg j (new_item e (j, prompts ! j)))"
  let ?S = "map (\<lambda>j. if j < ?k then ?final j else Pending) [0..<?n]"
  let ?rest = "if ?k < ?n then [(?k, Generating)] else []"
  have kn: "?k \<le> ?n" by (rule first_broken_le)
  have init: "map status (new_queue e prompts) = replicate ?n Pending"
    by (rule nth_equalityI) (simp_all add: length_new_queue new_queue_nth new_item_def)
  have tr: "transitions ?R =
      concat (map (\<lambda>j. [(j, Generating), (j, ?final j)]) [0..<?k]) @ ?rest"
    by (simp add: run_transitions job_events_def)
  have jobs: "replay (replicate ?n Pending)
      (concat (map (\<lambda>j. [(j, Generating), (j, ?final j)]) [0..<?k])) = Some ?S"
    using kn by (intro replay_jobs) (simp_all add: finished_terminal)
  have fin: "map status (bulkQueue ?R) =
      map (\<lambda>j. if j < ?k then ?final j else if j = ?k then Generating else Pending) [0..<?n]"
    by (rule nth_equalityI) (simp_all add: run_length run_nth new_item_def)
  have last: "replay ?S ?rest = Some (map status (bulkQueue ?R))"
  proof (cases "?k < ?n")
    case True
    have "?S[?k := Generating] =
        map (\<lambda>j. if j < ?k then ?final j else if j = ?k then Generating else Pending) [0..<?n]"
      by (rule nth_equalityI) (auto simp: nth_list_update)
    then show ?thesis using True by (simp add: fin)
  next
    case False
    then have "?k = ?n" using kn by simp
    then have "?S = map status (bulkQueue ?R)"
      unfolding fin by (intro nth_equalityI) simp_all
    then show ?thesis using False by simp
  qed
  have "replay (map status (new_queue e prompts)) (transitions ?R) =
      Some (map status (bulkQueue ?R))"
    unfolding init tr by (simp only: replay_append jobs option.case last)
  moreover have "\<forall>s. \<not> forward Done s \<and> \<not> forward Error s \<and> \<not> forward s Pending"
  proof
    fix s show "\<not> forward Done s \<and> \<not> forward Error s \<and> \<not> forward s Pending"
      by (cases s) simp_all
  qed
  ultimately show ?thesis using init by simp
qed

text \<open>
  C2. When no line of the text area is left after trimming and dropping the blank ones,
  the bulk branch only shows the status error asking for a prompt: the queue is the one
  from before the click, and no call of \<open>generateImage\<close> has been added.
\<close>

theorem empty_bulk_input_rejected:
  assumes "filter (\<lambda>p. length p > 0) (map trim (split_lines promptValue)) = []"
  shows "generate_click_bulk e st promptValue negativeInput =
           st\<lparr>status_error :=
                Some (js ''Please enter at least one prompt for bulk generation.'')\<rparr> \<and>
         bulkQueue (generate_click_bulk e st promptValue negativeInput) = bulkQueue st \<and>
         generate_calls (generate_click_bulk e st promptValue negativeInput) = generate_calls st"
  using assms by (simp add: generate_click_bulk_def bulk_prompts_def Let_def)

theorem empty_bulk_input_rejected_witness:
  "filter (\<lambda>p. length p > 0) (map trim (split_lines [32, 10, 9, 32, 10])) = [] \<and>
   generate_click_bulk example_env empty_state [32, 10, 9, 32, 10] [] =
     empty_state\<lparr>status_error :=
       Some (js ''Please enter at least one prompt for bulk generation.'')\<rparr> \<and>
   bulkQueue (generate_click_bulk example_env empty_state [32, 10, 9, 32, 10] []) = [] \<and>
   generate_calls (generate_click_bulk example_env empty_state [32, 10, 9, 32, 10] []) = []"
proof -
  have h: "filter (\<lambda>p. length p > 0) (map trim (split_lines [32, 10, 9, 32, 10])) = []"
    by (simp add: trim_def isWhiteSpace_def)
  show ?thesis
    using h empty_bulk_input_rejected [OF h, of example_env empty_state "[]"]
    by (simp add: empty_state_def)
qed

lemma trim_idem: "trim (trim s) = trim s"
proof -
  define t where "t = dropWhile isWhiteSpace s"
  define u where "u = rev (dropWhile isWhiteSpace (rev t))"
  have split: "t = u @ rev (takeWhile isWhiteSpace (rev t))"
    unfolding u_def by (metis rev_append rev_rev_ident takeWhile_dropWhile_id)
  have front: "dropWhile isWhiteSpace u = u"
  proof (cases u)
    case Nil
    then show ?thesis by simp
  next
    case (Cons c cs)
    then have "t = c # (cs @ rev (takeWhile isWhiteSpace (rev t)))" using split by simp
    then obtain r where "t = c # r" ..
    then have "t \<noteq> []" and "hd t = c" by simp_all
    moreover have "t \<noteq> [] \<Longrightarrow> \<not> isWhiteSpace (hd t)"
      unfolding t_def by (rule hd_dropWhile)
    ultimately have "\<not> isWhiteSpace c" by simp
    with Cons show ?thesis by simp
  qed
  have rear: "dropWhile isWhiteSpace (rev u) = rev u"
    unfolding u_def by simp
  have "trim s = u" by (simp add: trim_def t_def u_def)
  moreover have "trim u = u" by (simp add: trim_def front rear)
  ultimately show ?thesis by simp
qed

lemma bulk_prompts_trimmed: "map trim (bulk_prompts pv) = bulk_prompts pv"
proof -
  have "\<forall>p \<in> set (bulk_prompts pv). trim p = p"
    by (auto simp: bulk_prompts_def trim_idem)
  then show ?thesis by (simp add: map_idI)
qed

lemma queue_prompts:
  "map prompt (bulkQueue (runBulkGeneration e st prompts neg)) = map trim prompts"
  by (rule nth_equalityI) (simp_all add: run_length run_nth prompt_finished new_item_def)

lemma click_queue_prompts:
  assumes "bulk_prompts promptValue \<noteq> []"
  shows "map prompt (bulkQueue (generate_click_bulk e st promptValue negativeInput)) =
           filter (\<lambda>p. length p > 0) (map trim (split_lines promptValue))"
proof -
  have "generate_click_bulk e st promptValue negativeInput =
      runBulkGeneration e st (bulk_prompts promptValue) (trim negativeInput)"
    using assms by (simp add: generate_click_bulk_def Let_def)
  then have "map prompt (bulkQueue (generate_click_bulk e st promptValue negativeInput)) =
      map trim (bulk_prompts promptValue)"
    by (simp only: queue_prompts)
  also have "\<dots> = bulk_prompts promptValue" by (rule bulk_prompts_trimmed)
  also have "\<dots> = filter (\<lambda>p. length p > 0) (map trim (split_lines promptValue))"
    by (simp add: bulk_prompts_def)
  finally show ?thesis .
qed

text \<open>
  C3. One job is created per trimmed non-blank line, in the order of the input, but
  not every job is processed: for the three lines \<open>a\<close>, \<open><!--\<close>, \<open>c\<close> the queue holds
  the three prompts, \<open>generateImage\<close> is called for \<open>a\<close> only, job 1 is left
  \<open>generating\<close> by the \<open>TypeError\<close> of its missing status element, which rejects the
  run, and job 2 stays \<open>pending\<close>.
\<close>

theorem markup_stops_processing:
  "bulk_prompts [97, 10, 60, 33, 45, 45, 10, 99] = [js ''a'', js ''<!--'', js ''c''] \<and>
   map prompt (bulkQueue (generate_click_bulk markup_env empty_state
      [97, 10, 60, 33, 45, 45, 10, 99] [])) = [js ''a'', js ''<!--'', js ''c''] \<and>
   map status (bulkQueue (generate_click_bulk markup_env empty_state
      [97, 10, 60, 33, 45, 45, 10, 99] [])) = [Done, Generating, Pending] \<and>
   generate_calls (generate_click_bulk markup_env empty_state
      [97, 10, 60, 33, 45, 45, 10, 99] []) = [js ''a''] \<and>
   transitions (generate_click_bulk markup_env empty_state
      [97, 10, 60, 33, 45, 45, 10, 99] []) = [(0, Generating), (0, Done), (1, Generating)] \<and>
   uncaught (generate_click_bulk markup_env empty_state
      [97, 10, 60, 33, 45, 45, 10, 99] []) = Some TypeError"
proof -
  let ?pv = "[97, 10, 60, 33, 45, 45, 10, 99] :: jsstring"
  let ?ps = "[js ''a'', js ''<!--'', js ''c'']"
  let ?R = "runBulkGeneration markup_env empty_state ?ps []"
  have sl: "split_lines ?pv = [[97], [60, 33, 45, 45], [99]]" by simp
  have tr: "trim [97] = [97]" "trim [60, 33, 45, 45] = [60, 33, 45, 45]" "trim [99] = [99]"
    "trim [] = []"
    by (simp_all add: trim_def isWhiteSpace_def)
  have lit: "js ''a'' = [97]" "js ''<!--'' = [60, 33, 45, 45]" "js ''c'' = [99]"
    by (simp_all add: js_def)
  have bp: "bulk_prompts ?pv = ?ps"
    by (simp add: bulk_prompts_def sl tr lit del: split_lines.simps)
  have run: "generate_click_bulk markup_env empty_state ?pv [] = ?R"
    by (simp add: generate_click_bulk_def bp tr Let_def)
  have k: "first_broken markup_env (length ?ps) = 1" by (simp add: markup_first_broken)
  have r0: "job_result markup_env [] 0 (new_item markup_env (0, ?ps ! 0)) =
      Inr (js ''data:image/png;base64,AAAA'')"
    by (simp add: job_result_def new_item_def markup_env_def example_env_def final_prompt_def
        lit tr applyWatermark_def example_controls_def example_browser_def example_image_def
        js_def)
  then have f0: "status (finished markup_env [] 0 (new_item markup_env (0, ?ps ! 0))) = Done"
    by (simp add: status_finished)
  have s0: "status (bulkQueue ?R ! 0) = Done"
    using run_nth [of 0 ?ps markup_env empty_state "[]"] f0 by (simp only: k) simp
  have s1: "status (bulkQueue ?R ! 1) = Generating"
    using run_nth [of 1 ?ps markup_env empty_state "[]"] by (simp only: k) simp
  have s2: "status (bulkQueue ?R ! 2) = Pending"
    using run_nth [of 2 ?ps markup_env empty_state "[]"]
    by (simp only: k) (simp add: new_item_def)
  have "length (bulkQueue ?R) = 3" by (simp add: run_length)
  then have st: "map status (bulkQueue ?R) = [Done, Generating, Pending]"
    using s0 s1 s2 by (rule three_statuses)
  have pr: "map prompt (bulkQueue ?R) = ?ps"
    by (simp add: queue_prompts lit tr)
  have calls: "generate_calls ?R = [js ''a'']"
    using run_calls [of markup_env empty_state ?ps "[]"]
    by (simp only: k) (simp add: empty_state_def final_prompt_def lit tr)
  have trans: "transitions ?R = [(0, Generating), (0, Done), (1, Generating)]"
    using run_transitions [of markup_env empty_state ?ps "[]"] f0
    by (simp only: k) (simp add: job_events_def)
  have unc: "uncaught ?R = Some TypeError"
    using run_uncaught [of markup_env empty_state ?ps "[]"] by (simp only: k) simp
  show ?thesis using bp pr st calls trans unc by (simp only: run)
qed

subsection \<open>Runs in which every row has its status element\<close>

lemma rows_intact_failure_isolation:
  assumes "\<forall>j < length prompts. status_text e j" and "i < length prompts"
    and "generateImage e i (final_prompt neg (trim (prompts ! i))) = Inl err \<or>
         (\<exists>generated. generateImage e i (final_prompt neg (trim (prompts ! i))) = Inr generated \<and>
                      watermark e i generated = Inl err)"
  shows "length (bulkQueue (runBulkGeneration e st prompts neg)) = length prompts \<and>
         status (bulkQueue (runBulkGeneration e st prompts neg) ! i) = Error \<and>
         (\<forall>j. i < j \<and> j < length prompts \<longrightarrow>
            status (bulkQueue (runBulkGeneration e st prompts neg) ! j) =
              (case job_result e neg j (new_item e (j, prompts ! j)) of
                 Inl err' \<Rightarrow> Error | Inr base64 \<Rightarrow> Done)) \<and>
         generate_calls (runBulkGeneration e st prompts neg) =
           generate_calls st @ map (\<lambda>p. final_prompt neg (trim p)) prompts \<and>
         uncaught (runBulkGeneration e st prompts neg) = None"
proof -
  have k: "first_broken e (length prompts) = length prompts"
    using assms(1) by (rule first_broken_intact)
  have "\<exists>err'. job_result e neg i (new_item e (i, prompts ! i)) = Inl err'"
    using assms(3) by (auto simp: job_result_def new_item_def)
  then have "status (bulkQueue (runBulkGeneration e st prompts neg) ! i) = Error"
    using assms(2) by (auto simp: run_nth k status_finished)
  then show ?thesis
    by (simp add: run_length run_nth run_calls run_uncaught k status_finished)
qed

lemma rows_intact_jobs_in_order:
  assumes "\<forall>j < length (bulk_prompts promptValue). status_text e j"
    and "bulk_prompts promptValue \<noteq> []"
  shows "generate_calls (generate_click_bulk e st promptValue negativeInput) =
           generate_calls st @
           map (final_prompt (trim negativeInput)) (bulk_prompts promptValue) \<and>
         map fst (transitions (generate_click_bulk e st promptValue negativeInput)) =
           concat (map (\<lambda>j. [j, j]) [0..<length (bulk_prompts promptValue)])"
proof -
  let ?ps = "bulk_prompts promptValue"
  let ?neg = "trim negativeInput"
  have k: "first_broken e (length ?ps) = length ?ps"
    using assms(1) by (rule first_broken_intact)
  have run: "generate_click_bulk e st promptValue negativeInput =
      runBulkGeneration e st ?ps ?neg"
    using assms(2) by (simp add: generate_click_bulk_def Let_def)
  have "map (\<lambda>p. final_prompt ?neg (trim p)) ?ps = map (final_prompt ?neg) (map trim ?ps)"
    by simp
  then have calls: "generate_calls (runBulkGeneration e st ?ps ?neg) =
      generate_calls st @ map (final_prompt ?neg) ?ps"
    by (simp only: run_calls k take_all order_refl bulk_prompts_trimmed)
  have order: "map fst (transitions (runBulkGeneration e st ?ps ?neg)) =
      concat (map (\<lambda>j. [j, j]) [0..<length ?ps])"
    by (simp add: run_transitions k job_events_def map_concat comp_def)
  show ?thesis using calls order by (simp only: run)
qed

section \<open>Decode failures\<close>

text \<open>
  Against C8 as stated: with the watermark enabled, a generated string that no image
  loads from passes through \<open>applyWatermark\<close> unchanged, and the job ends \<open>done\<close>.
\<close>

theorem watermark_decode_failure_counterexample:
  "loadImage example_browser (js ''garbage'') = None \<and>
   watermark_toggle example_controls = Some True \<and>
   applyWatermark example_browser example_controls None (js ''garbage'') = Inr (js ''garbage'') \<and>
   generateImage garbage_env 0 (js ''a'') = Inr (js ''garbage'') \<and>
   map status (bulkQueue (runBulkGeneration garbage_env empty_state [js ''a''] [])) = [Done]"
proof -
  let ?q = "bulkQueue (runBulkGeneration garbage_env empty_state [js ''a''] [])"
  have ld: "loadImage example_browser (js ''garbage'') = None"
    by (simp add: example_browser_def js_def)
  have wm: "applyWatermark example_browser example_controls None (js ''garbage'') =
      Inr (js ''garbage'')"
    by (simp add: applyWatermark_def example_controls_def ld)
  have k: "first_broken garbage_env (length [js ''a'']) = length [js ''a'']"
    by (rule first_broken_intact) (simp add: garbage_env_def example_env_def)
  have res: "job_result garbage_env [] 0 (new_item garbage_env (0, js ''a'')) =
      Inr (js ''garbage'')"
    by (simp add: job_result_def garbage_env_def example_env_def wm)
  have "length ?q = 1" by (simp add: run_length)
  moreover have "status (?q ! 0) = Done"
    using run_nth [of 0 "[js ''a'']" garbage_env empty_state "[]"] res
    by (simp only: k) (simp add: status_finished)
  ultimately have "map status ?q = [Done]"
    by (cases ?q) simp_all
  moreover have "generateImage garbage_env 0 (js ''a'') = Inr (js ''garbage'')"
    by (simp add: garbage_env_def)
  ultimately show ?thesis using ld wm by (simp add: example_controls_def)
qed

text \<open>
  C8, amended. For a string that no image loads from, \<open>compressImage\<close> rejects with
  the error event, while \<open>applyWatermark\<close> resolves with the string unchanged whatever
  the controls are; a job whose generation yields such a string, in a run that reaches
  its \<open>try\<close> block (its row and the rows before it have their status element),
  therefore ends \<open>done\<close> with that string as its image.
\<close>

theorem decode_failure_policy:
  assumes "loadImage (env_browser e) s = None" and "i < length prompts"
    and "generateImage e i (final_prompt neg (trim (prompts ! i))) = Inr s"
    and "\<forall>j \<le> i. status_text e j"
  shows "compressImage (env_browser e) s maxWidth quality = Inl ImageErrorEvent \<and>
         applyWatermark (env_browser e) d logo s = Inr s \<and>
         bulkQueue (runBulkGeneration (with_applyWatermark e controls logos) st prompts neg) ! i =
           (new_item e (i, prompts ! i))\<lparr>status := Done, imageUrl := Some s\<rparr>"
proof -
  have wm: "\<And>d logo. applyWatermark (env_browser e) d logo s = Inr s"
    using assms(1) by (auto simp: applyWatermark_def split: option.splits)
  let ?e = "with_applyWatermark e controls logos"
  have "\<forall>j \<le> i. status_text ?e j"
    using assms(4) by (simp add: with_applyWatermark_def)
  with assms(2) have reached: "i < first_broken ?e (length prompts)"
    by (rule first_broken_after)
  have item: "new_item ?e (i, prompts ! i) = new_item e (i, prompts ! i)"
    by (simp add: new_item_def with_applyWatermark_def)
  have "job_result ?e neg i (new_item e (i, prompts ! i)) = Inr s"
    using assms(3) by (simp add: job_result_def with_applyWatermark_def new_item_def wm)
  then have "finished ?e neg i (new_item e (i, prompts ! i)) =
      (new_item e (i, prompts ! i))\<lparr>status := Done, imageUrl := Some s\<rparr>"
    by (simp add: finished_def)
  then have "bulkQueue (runBulkGeneration ?e st prompts neg) ! i =
      (new_item e (i, prompts ! i))\<lparr>status := Done, imageUrl := Some s\<rparr>"
    using assms(2) reached by (simp add: run_nth item)
  moreover have "compressImage (env_browser e) s maxWidth quality = Inl ImageErrorEvent"
    using assms(1) by (simp add: compressImage_def)
  ultimately show ?thesis using wm by simp
qed

theorem decode_failure_policy_witness:
  "loadImage (env_browser garbage_env) (js ''garbage'') = None \<and> (0::nat) < length [js ''a''] \<and>
   generateImage garbage_env 0 (final_prompt [] (trim ([js ''a''] ! 0))) = Inr (js ''garbage'') \<and>
   status_text garbage_env 0 \<and>
   compressImage (env_browser garbage_env) (js ''garbage'') 800 (7 / 10) = Inl ImageErrorEvent \<and>
   applyWatermark (env_browser garbage_env) example_controls None (js ''garbage'') =
     Inr (js ''garbage'') \<and>
   status (bulkQueue (runBulkGeneration
             (with_applyWatermark garbage_env (\<lambda>i. example_controls) (\<lambda>i. None))
             empty_state [js ''a''] []) ! 0) = Done"
proof -
  have ld: "loadImage (env_browser garbage_env) (js ''garbage'') = None"
    by (simp add: garbage_env_def example_env_def example_browser_def js_def)
  have i: "(0::nat) < length [js ''a'']" by simp
  have gen: "generateImage garbage_env 0 (final_prompt [] (trim ([js ''a''] ! 0))) =
      Inr (js ''garbage'')"
    by (simp add: garbage_env_def)
  have rows: "\<forall>j \<le> 0. status_text garbage_env j"
    by (simp add: garbage_env_def example_env_def)
  from decode_failure_policy [OF ld i gen rows, of 800 "7 / 10" example_controls None
      "\<lambda>i. example_controls" "\<lambda>i. None" empty_state]
  show ?thesis using ld gen rows by simp
qed

section \<open>The archive of the bulk results\<close>

lemma decimal_digits: "\<forall>c \<in> set (decimal n). isDigit c"
proof (induction n rule: decimal.induct)
  case (1 n)
  show ?case
  proof (cases "n < 10")
    case True
    then show ?thesis by (subst decimal.simps) (simp add: isDigit_def)
  next
    case False
    have "n mod 10 < 10" by simp
    then have "isDigit (48 + n mod 10)" unfolding isDigit_def by linarith
    then show ?thesis using False "1.IH" by (subst decimal.simps) simp
  qed
qed

lemma decimal_value: "foldl (\<lambda>a c. 10 * a + (c - 48)) 0 (decimal n) = n"
proof (induction n rule: decimal.induct)
  case (1 n)
  show ?case
  proof (cases "n < 10")
    case True
    then show ?thesis by (subst decimal.simps) simp
  next
    case False
    then show ?thesis using "1.IH" by (subst decimal.simps) simp
  qed
qed

lemma decimal_inj: "decimal m = decimal n \<Longrightarrow> m = n"
  by (metis decimal_value)

lemma takeWhile_decimal: "takeWhile isDigit (decimal n @ 95 # rest) = decimal n"
proof -
  have "\<not> isDigit 95" by (simp add: isDigit_def)
  then show ?thesis using decimal_digits [of n] by simp
qed

lemma filename_inj:
  assumes "filename i item ext = filename j item' ext'"
  shows "i = j"
proof -
  have "decimal (i + 1) @ 95 # (sanitize (prompt item) @ js ''.'' @ ext) =
        decimal (j + 1) @ 95 # (sanitize (prompt item') @ js ''.'' @ ext')"
    using assms by (simp add: filename_def js_def)
  then have "takeWhile isDigit (decimal (i + 1) @ 95 # (sanitize (prompt item) @ js ''.'' @ ext)) =
        takeWhile isDigit (decimal (j + 1) @ 95 # (sanitize (prompt item') @ js ''.'' @ ext'))"
    by simp
  then have "decimal (i + 1) = decimal (j + 1)"
    by (simp only: takeWhile_decimal)
  then show ?thesis using decimal_inj by fastforce
qed

lemma update_fresh: "k \<notin> fst ` set al \<Longrightarrow> AList.update k v al = al @ [(k, v)]"
  by (induction al) auto

lemma zip_item_exportable:
  "exportable (snd ii) \<Longrightarrow>
   zip_item ii (folder, count) =
     (AList.update (fst (entry_of ii)) (snd (entry_of ii)) folder, count + 1)"
  by (cases ii) (auto simp: zip_item_def exportable_def entry_of_def split: option.splits prod.splits)

lemma zip_item_skipped: "\<not> exportable (snd ii) \<Longrightarrow> zip_item ii (folder, count) = (folder, count)"
  by (cases ii) (auto simp: zip_item_def exportable_def split: option.splits prod.splits)

lemma fold_zip_item:
  "distinct (map fst folder @ map (\<lambda>ii. fst (entry_of ii)) (filter (\<lambda>ii. exportable (snd ii)) items)) \<Longrightarrow>
   fold zip_item items (folder, count) =
     (folder @ map entry_of (filter (\<lambda>ii. exportable (snd ii)) items),
      count + length (filter (\<lambda>ii. exportable (snd ii)) items))"
proof (induction items arbitrary: folder count)
  case Nil
  then show ?case by simp
next
  case (Cons ii items)
  show ?case
  proof (cases "exportable (snd ii)")
    case True
    have fresh: "fst (entry_of ii) \<notin> fst ` set folder"
      using Cons.prems True by auto
    have step: "zip_item ii (folder, count) = (folder @ [entry_of ii], count + 1)"
      using True fresh by (simp add: zip_item_exportable update_fresh)
    have "distinct (map fst (folder @ [entry_of ii]) @
        map (\<lambda>ii. fst (entry_of ii)) (filter (\<lambda>ii. exportable (snd ii)) items))"
      using Cons.prems True by auto
    from Cons.IH [OF this] show ?thesis using True by (simp add: step)
  next
    case False
    then show ?thesis using Cons by (simp add: zip_item_skipped)
  qed
qed

lemma entries_distinct: "distinct (map fst (entries queue))"
proof -
  let ?items = "filter (\<lambda>ii. exportable (snd ii)) (enumerate 0 queue)"
  have d: "distinct ?items" by simp
  have "inj_on (\<lambda>ii. fst (entry_of ii)) (set ?items)"
  proof (rule inj_onI)
    fix x y assume x: "x \<in> set ?items" and y: "y \<in> set ?items"
      and eq: "fst (entry_of x) = fst (entry_of y)"
    obtain i a where xi: "x = (i, a)" by (cases x)
    obtain j b where yj: "y = (j, b)" by (cases y)
    have "i = j" using eq xi yj
      by (auto simp: entry_of_def split: prod.splits dest: filename_inj)
    moreover have "a = queue ! i" "b = queue ! j"
      using x y xi yj by (auto simp: in_set_enumerate_eq)
    ultimately show "x = y" using xi yj by simp
  qed
  with d have "distinct (map (\<lambda>ii. fst (entry_of ii)) ?items)" by (simp add: distinct_map)
  then show ?thesis by (simp add: entries_def comp_def)
qed

lemma downloadBulkZip_entries:
  "downloadBulkZip True queue =
     (if entries queue \<noteq> [] then Download (entries queue)
      else Alert (js ''No successful images to download.''))"
proof -
  have "distinct (map fst [] @ map (\<lambda>ii. fst (entry_of ii))
      (filter (\<lambda>ii. exportable (snd ii)) (enumerate 0 queue)))"
    using entries_distinct [of queue] by (simp add: entries_def comp_def)
  from fold_zip_item [OF this, of 0]
  have "fold zip_item (enumerate 0 queue) ([], 0) = (entries queue, length (entries queue))"
    by (simp add: entries_def)
  then show ?thesis by (simp add: downloadBulkZip_def)
qed

lemma length_entries: "length (entries queue) = length (filter exportable queue)"
proof -
  have "filter exportable (map snd (enumerate 0 queue)) =
      map snd (filter (exportable \<circ> snd) (enumerate 0 queue))"
    by (rule filter_map)
  then have "length (filter exportable queue) =
      length (filter (exportable \<circ> snd) (enumerate 0 queue))"
    by (metis length_map map_snd_enumerate)
  then show ?thesis by (simp add: entries_def comp_def)
qed

lemma sanitize_chars: "list_all isStemChar (sanitize p)"
  by (auto simp: sanitize_def list_all_iff isStemChar_def)

lemma decimal_chars: "list_all isStemChar (decimal n)"
  using decimal_digits [of n] by (simp add: list_all_iff isStemChar_def isAlnum_def)

lemma match_data_url_extension:
  assumes "match_data_url url = Some (mime, payload)"
  shows "list_all isLower (extension mime)"
proof -
  have "mime = js ''image/'' @ takeWhile isLower (drop (length (js ''data:image/'')) url)"
    using assms by (simp add: match_data_url_def Let_def split: if_splits)
  then have "extension mime = takeWhile isLower (drop (length (js ''data:image/'')) url)"
    by (simp add: extension_def)
  then show ?thesis by (simp add: list_all_iff) (meson set_takeWhileD)
qed

lemma prefix_chars: "list_all isStemChar (js ''image_'')" "list_all isStemChar (js ''_'')"
  by (simp_all add: js_def isStemChar_def isAlnum_def isLower_def isUpper_def isDigit_def)

lemma filename_chars:
  assumes "list_all isLower ext"
  shows "list_all isNameChar (filename index item ext)"
proof -
  have stem: "list_all isStemChar (js ''image_'' @ decimal (index + 1) @ js ''_'' @ sanitize (prompt item))"
    by (simp add: prefix_chars decimal_chars sanitize_chars)
  have "list_all isNameChar (js ''image_'' @ decimal (index + 1) @ js ''_'' @ sanitize (prompt item))"
    using stem by (simp add: list_all_iff isNameChar_def)
  moreover have "list_all isNameChar (js ''.'')"
    by (simp add: js_def isNameChar_def)
  moreover have "list_all isNameChar ext"
    using assms by (simp add: list_all_iff isNameChar_def isStemChar_def isAlnum_def)
  ultimately show ?thesis by (simp add: filename_def)
qed

lemma entries_chars: "\<forall>name \<in> set (map fst (entries queue)). list_all isNameChar name"
proof
  fix name assume "name \<in> set (map fst (entries queue))"
  then obtain index item where ex: "exportable item" and name: "name = fst (entry_of (index, item))"
    by (auto simp: entries_def)
  from ex obtain mime payload where m: "match_data_url (the (imageUrl item)) = Some (mime, payload)"
    by (auto simp: exportable_def)
  then have "name = filename index item (extension mime)"
    using name by (simp add: entry_of_def)
  then show "list_all isNameChar name"
    using match_data_url_extension [OF m] by (simp add: filename_chars)
qed

lemma entries_empty: "entries queue \<noteq> [] \<longleftrightarrow> list_ex exportable queue"
proof -
  have "entries queue \<noteq> [] \<longleftrightarrow> length (entries queue) \<noteq> 0" by simp
  also have "\<dots> \<longleftrightarrow> filter exportable queue \<noteq> []" by (simp only: length_entries) simp
  also have "\<dots> \<longleftrightarrow> list_ex exportable queue" by (simp add: filter_empty_conv list_ex_iff)
  finally show ?thesis .
qed

lemma match_data_url_complete:
  assumes "spec_data_url url subtype payload"
  shows "match_data_url url = Some (js ''image/'' @ subtype, payload)"
proof -
  from assms have url: "url = js ''data:image/'' @ subtype @ js '';base64,'' @ payload"
    and ne: "subtype \<noteq> []" and lower: "\<forall>c \<in> set subtype. isLower c"
    and pay: "payload \<noteq> []" and lines: "\<not> list_ex isLineTerminator payload"
    by (auto simp: spec_data_url_def list_all_iff list_ex_iff isLower_def isLineTerminator_def)
  have rest: "drop (length (js ''data:image/'')) url = subtype @ js '';base64,'' @ payload"
    and start: "take (length (js ''data:image/'')) url = js ''data:image/''"
    by (simp_all add: url)
  have sep: "js '';base64,'' @ payload = 59 # (js ''base64,'' @ payload)"
    by (simp add: js_def)
  have nl: "\<not> isLower 59" by (simp add: isLower_def)
  have tw: "takeWhile isLower (subtype @ js '';base64,'' @ payload) = subtype"
    using lower nl by (simp add: sep)
  have dw: "dropWhile isLower (subtype @ js '';base64,'' @ payload) = js '';base64,'' @ payload"
    using lower nl by (simp add: sep)
  show ?thesis
    unfolding match_data_url_def Let_def rest tw dw
    using start ne pay lines by simp
qed

lemma match_data_url_sound:
  assumes "match_data_url url = Some (mime, payload)"
  shows "\<exists>subtype. spec_data_url url subtype payload \<and> mime = js ''image/'' @ subtype"
proof -
  let ?rest = "drop (length (js ''data:image/'')) url"
  let ?sub = "takeWhile isLower ?rest"
  let ?rest2 = "dropWhile isLower ?rest"
  from assms have start: "take (length (js ''data:image/'')) url = js ''data:image/''"
    and ne: "?sub \<noteq> []" and sep: "take (length (js '';base64,'')) ?rest2 = js '';base64,''"
    and pay: "payload = drop (length (js '';base64,'')) ?rest2" "payload \<noteq> []"
    and lines: "\<not> list_ex isLineTerminator payload" and mime: "mime = js ''image/'' @ ?sub"
    by (auto simp: match_data_url_def Let_def split: if_splits)
  have "url = take (length (js ''data:image/'')) url @ ?rest" by simp
  also have "?rest = ?sub @ ?rest2" by simp
  also have "?rest2 = take (length (js '';base64,'')) ?rest2 @ payload"
    unfolding pay(1) by simp
  finally have "url = js ''data:image/'' @ ?sub @ js '';base64,'' @ payload"
    by (simp only: start sep)
  moreover have "list_all (\<lambda>c. 97 \<le> c \<and> c \<le> 122) ?sub"
    unfolding list_all_iff using set_takeWhileD [of _ isLower ?rest] by (auto simp: isLower_def)
  moreover have "list_all (\<lambda>c. c \<noteq> 10 \<and> c \<noteq> 13 \<and> c \<noteq> 8232 \<and> c \<noteq> 8233) payload"
    using lines by (auto simp: list_all_iff list_ex_iff isLineTerminator_def)
  ultimately have "spec_data_url url ?sub payload"
    using ne pay(2) by (simp add: spec_data_url_def)
  then show ?thesis using mime by blast
qed

lemma exportable_iff:
  "exportable item \<longleftrightarrow>
     status item = Done \<and>
     (\<exists>url subtype payload. imageUrl item = Some url \<and> spec_data_url url subtype payload)"
proof
  assume ex: "exportable item"
  then obtain url where url: "imageUrl item = Some url" by (auto simp: exportable_def)
  with ex obtain mime payload where "match_data_url url = Some (mime, payload)"
    by (auto simp: exportable_def)
  then obtain subtype where "spec_data_url url subtype payload"
    using match_data_url_sound by blast
  with ex url show "status item = Done \<and>
     (\<exists>url subtype payload. imageUrl item = Some url \<and> spec_data_url url subtype payload)"
    by (auto simp: exportable_def)
next
  assume "status item = Done \<and>
     (\<exists>url subtype payload. imageUrl item = Some url \<and> spec_data_url url subtype payload)"
  then obtain url subtype payload where d: "status item = Done" and url: "imageUrl item = Some url"
    and sp: "spec_data_url url subtype payload" by blast
  have "url \<noteq> []" using sp by (auto simp: spec_data_url_def js_def)
  then show "exportable item"
    using d url match_data_url_complete [OF sp] by (simp add: exportable_def)
qed

lemma sanitize_spelled:
  "sanitize p =
     map (\<lambda>c. if (48 \<le> c \<and> c \<le> 57) \<or> (65 \<le> c \<and> c \<le> 90) \<or> (97 \<le> c \<and> c \<le> 122) then c else 95)
       (take 15 p)"
  unfolding sanitize_def
  by (rule map_cong) (auto simp: isAlnum_def isLower_def isUpper_def isDigit_def)

lemma entry_of_spelled:
  assumes "imageUrl item = Some url" and "spec_data_url url subtype payload"
  shows "entry_of (index, item) = (spec_filename index (prompt item) subtype, payload)"
proof -
  have "extension (js ''image/'' @ subtype) = subtype" by (simp add: extension_def)
  then show ?thesis
    using assms(1) match_data_url_complete [OF assms(2)]
    by (simp add: entry_of_def filename_def spec_filename_def sanitize_spelled)
qed

text \<open>
  C5, amended. With JSZip loaded, \<open>downloadBulkZip\<close> alerts that there are no
  successful images when no item is done with an image URL of the form
  \<open>data:image/<lower-case letters>;base64,<payload>\<close> (in particular when no item is
  done), and otherwise builds an archive with exactly one entry per such item, in queue
  order. The entry of the item at \<open>index\<close> holds the payload under the name
  \<open>image_<index + 1>_<prompt part>.<letters>\<close>, the prompt part being the first 15
  code units of the prompt with every one outside \<open>[A-Za-z0-9]\<close> replaced by \<open>_\<close>. The
  names are pairwise distinct and consist of letters, digits, \<open>_\<close> and \<open>.\<close> only.
\<close>

theorem downloadBulkZip_archive:
  "downloadBulkZip True queue =
     (if list_ex exportable queue then Download (entries queue)
      else Alert (js ''No successful images to download.'')) \<and>
   (\<not> list_ex (\<lambda>item. status item = Done) queue \<longrightarrow>
      downloadBulkZip True queue = Alert (js ''No successful images to download.'')) \<and>
   entries queue = map entry_of (filter (\<lambda>ii. exportable (snd ii)) (enumerate 0 queue)) \<and>
   (exportable item \<longleftrightarrow>
      status item = Done \<and>
      (\<exists>url subtype payload. imageUrl item = Some url \<and> spec_data_url url subtype payload)) \<and>
   (imageUrl item = Some url \<and> spec_data_url url subtype payload \<longrightarrow>
      entry_of (index, item) = (spec_filename index (prompt item) subtype, payload)) \<and>
   length (entries queue) = length (filter exportable queue) \<and>
   distinct (map fst (entries queue)) \<and>
   (\<forall>name \<in> set (map fst (entries queue)). list_all isNameChar name)"
proof -
  have main: "downloadBulkZip True queue =
     (if list_ex exportable queue then Download (entries queue)
      else Alert (js ''No successful images to download.''))"
    by (simp only: downloadBulkZip_entries entries_empty)
  have "\<not> list_ex (\<lambda>item. status item = Done) queue \<Longrightarrow> \<not> list_ex exportable queue"
    by (auto simp: list_ex_iff exportable_def)
  then have none: "\<not> list_ex (\<lambda>item. status item = Done) queue \<longrightarrow>
      downloadBulkZip True queue = Alert (js ''No successful images to download.'')"
    using main by simp
  have form: "imageUrl item = Some url \<and> spec_data_url url subtype payload \<longrightarrow>
      entry_of (index, item) = (spec_filename index (prompt item) subtype, payload)"
    by (simp add: entry_of_spelled)
  show ?thesis
    using main none entries_def [of queue] exportable_iff [of item] form
      length_entries [of queue] entries_distinct [of queue] entries_chars [of queue]
    by blast
qed

lemma png_match:
  "match_data_url (js ''data:image/png;base64,iVBO'') = Some (js ''image/png'', js ''iVBO'')"
  by (simp add: match_data_url_def js_def isLower_def isLineTerminator_def Let_def)

lemma svg_match: "match_data_url (js ''data:image/svg+xml;base64,PHN2'') = None"
  by (simp add: match_data_url_def js_def isLower_def isLineTerminator_def Let_def)

lemma cat_name:
  "filename 0 \<lparr>item_id = js ''bulk-1000-0'', prompt = js ''a cat'', status = Done,
       imageUrl = Some (js ''data:image/png;base64,iVBO'')\<rparr> (extension (js ''image/png'')) = js ''image_1_a_cat.png''"
  by (simp add: filename_def extension_def sanitize_def decimal.simps js_def isAlnum_def
      isLower_def isUpper_def isDigit_def)

text \<open>
  Against C5 as stated: of two done jobs only the one whose image URL matches the
  pattern gets an entry, and its file name \<open>image_1_a_cat.png\<close> has a character
  outside \<open>[A-Za-z0-9_]\<close>.
\<close>

theorem export_filename_counterexample:
  "map status example_queue = [Done, Done] \<and>
   downloadBulkZip True example_queue = Download [(js ''image_1_a_cat.png'', js ''iVBO'')] \<and>
   \<not> list_all isStemChar (js ''image_1_a_cat.png'')"
proof -
  have nonempty: "js ''data:image/png;base64,iVBO'' \<noteq> []" "js ''data:image/svg+xml;base64,PHN2'' \<noteq> []"
    by (simp_all add: js_def)
  have "fold zip_item (enumerate 0 example_queue) ([], 0) =
      ([(js ''image_1_a_cat.png'', js ''iVBO'')], 1)"
    by (simp add: example_queue_def zip_item_def png_match svg_match cat_name nonempty)
  then have "downloadBulkZip True example_queue = Download [(js ''image_1_a_cat.png'', js ''iVBO'')]"
    by (simp add: downloadBulkZip_def)
  moreover have "\<not> list_all isStemChar (js ''image_1_a_cat.png'')"
    by (simp add: js_def isStemChar_def isAlnum_def isLower_def isUpper_def isDigit_def)
  moreover have "map status example_queue = [Done, Done]"
    by (simp add: example_queue_def)
  ultimately show ?thesis by simp
qed

theorem downloadBulkZip_archive_witness:
  "list_ex exportable long_queue \<and>
   status (long_queue ! 1) = Done \<and>
   imageUrl (long_queue ! 1) = Some (js ''data:image/jpeg;base64,/9j/4A=='') \<and>
   spec_data_url (js ''data:image/jpeg;base64,/9j/4A=='') (js ''jpeg'') (js ''/9j/4A=='') \<and>
   exportable (long_queue ! 1) \<and>
   spec_filename 1 (js ''A cat, on a mat at noon!'') (js ''jpeg'') =
     js ''image_2_A_cat__on_a_mat.jpeg'' \<and>
   entries long_queue = [(js ''image_2_A_cat__on_a_mat.jpeg'', js ''/9j/4A=='')] \<and>
   downloadBulkZip True long_queue =
     Download [(js ''image_2_A_cat__on_a_mat.jpeg'', js ''/9j/4A=='')] \<and>
   length (filter exportable long_queue) = 1 \<and>
   list_all isNameChar (js ''image_2_A_cat__on_a_mat.jpeg'') \<and>
   \<not> list_ex (\<lambda>item. status item = Done) [] \<and>
   downloadBulkZip True [] = Alert (js ''No successful images to download.'')"
proof -
  let ?item = "long_queue ! 1"
  let ?url = "js ''data:image/jpeg;base64,/9j/4A==''"
  have d: "status ?item = Done" and url: "imageUrl ?item = Some ?url"
    and pr: "prompt ?item = js ''A cat, on a mat at noon!''"
    by (simp_all add: long_queue_def)
  have sp: "spec_data_url ?url (js ''jpeg'') (js ''/9j/4A=='')"
    by (simp add: spec_data_url_def js_def)
  have name: "spec_filename 1 (js ''A cat, on a mat at noon!'') (js ''jpeg'') =
      js ''image_2_A_cat__on_a_mat.jpeg''"
    by (simp add: spec_filename_def decimal.simps js_def)
  have e0: "\<not> exportable (long_queue ! 0)"
    by (simp add: exportable_def long_queue_def)
  note inst = downloadBulkZip_archive [of long_queue ?item ?url "js ''jpeg''" "js ''/9j/4A==''" 1]
  have e1: "exportable ?item" using inst d url sp by blast
  have "entry_of (1, ?item) = (spec_filename 1 (prompt ?item) (js ''jpeg''), js ''/9j/4A=='')"
    using inst url sp by blast
  then have entry: "entry_of (1, ?item) = (js ''image_2_A_cat__on_a_mat.jpeg'', js ''/9j/4A=='')"
    by (simp only: pr name)
  have items: "long_queue = [long_queue ! 0, ?item]" by (simp add: long_queue_def)
  have flt: "filter (\<lambda>ii. exportable (snd ii)) (enumerate 0 long_queue) = [(1, ?item)]"
    using e0 e1 by (subst items) simp
  have "entries long_queue =
      map entry_of (filter (\<lambda>ii. exportable (snd ii)) (enumerate 0 long_queue))"
    using inst by blast
  then have en: "entries long_queue = [(js ''image_2_A_cat__on_a_mat.jpeg'', js ''/9j/4A=='')]"
    by (simp only: flt list.map entry)
  have ex: "list_ex exportable long_queue"
    using e1 by (subst items) simp
  have "downloadBulkZip True long_queue =
      (if list_ex exportable long_queue then Download (entries long_queue)
       else Alert (js ''No successful images to download.''))"
    using inst by blast
  then have dl: "downloadBulkZip True long_queue =
        Download [(js ''image_2_A_cat__on_a_mat.jpeg'', js ''/9j/4A=='')]"
    by (simp only: ex en if_True)
  have "length (entries long_queue) = length (filter exportable long_queue)"
    using inst by blast
  then have len: "length (filter exportable long_queue) = 1"
    by (simp add: en)
  have "\<forall>name \<in> set (map fst (entries long_queue)). list_all isNameChar name"
    using inst by blast
  then have chars: "list_all isNameChar (js ''image_2_A_cat__on_a_mat.jpeg'')"
    by (simp add: en)
  note dl len chars
  moreover have none: "\<not> list_ex (\<lambda>item. status item = Done) []" by simp
  moreover from downloadBulkZip_archive [of "[]"] none
  have "downloadBulkZip True [] = Alert (js ''No successful images to download.'')"
    by simp
  ultimately show ?thesis using ex d url sp e1 name en by simp
qed

end
